theory Spec2Isabelle
  imports Complex_Main "HOL-Library.Word"
begin

unbundle bit_operations_syntax

section \<open>JavaScript numbers and operators\<close>

text \<open>
  A TypeScript \<open>number\<close> is a double: a finite value (a rational), NaN or an infinity.
  The encoders only ever compute with a number after \<open>Number.isInteger\<close> has accepted it,
  so arithmetic is modelled on the integer the number holds. (The negative zero is an
  integer to \<open>Number.isInteger\<close> and is not told apart from zero here.)
\<close>

datatype number = Finite rat | NaN | PosInfinity | NegInfinity

fun isInteger :: "number \<Rightarrow> bool" where
  "isInteger (Finite q) = (of_int \<lfloor>q\<rfloor> = q)"
| "isInteger NaN = False"
| "isInteger PosInfinity = False"
| "isInteger NegInfinity = False"

fun integerOf :: "number \<Rightarrow> int" where
  "integerOf (Finite q) = \<lfloor>q\<rfloor>"
| "integerOf NaN = 0"
| "integerOf PosInfinity = 0"
| "integerOf NegInfinity = 0"

definition Number :: "int \<Rightarrow> number" where
  "Number n = Finite (of_int n)"

text \<open>Truthiness of a number, as \<open>if (x)\<close> tests it: zero and NaN are falsy.\<close>

fun truthy :: "number \<Rightarrow> bool" where
  "truthy (Finite q) = (q \<noteq> 0)"
| "truthy NaN = False"
| "truthy PosInfinity = True"
| "truthy NegInfinity = True"

text \<open>
  The bitwise operators convert their operands with ToInt32 (the value modulo \<open>2^32\<close>,
  read as a signed 32-bit integer) and work on the two's complement bits; \<open>>>\<close> is the
  sign-propagating shift, by the count modulo 32.
\<close>

definition ToInt32 :: "int \<Rightarrow> int" where
  "ToInt32 n = signed_take_bit 31 n"

definition js_and :: "int \<Rightarrow> int \<Rightarrow> int" where
  "js_and a b = ToInt32 a AND ToInt32 b"

definition js_or :: "int \<Rightarrow> int \<Rightarrow> int" where
  "js_or a b = ToInt32 a OR ToInt32 b"

definition js_shr :: "int \<Rightarrow> nat \<Rightarrow> int" where
  "js_shr a k = drop_bit (k mod 32) (ToInt32 a)"

section \<open>Errors\<close>

text \<open>The only exception of the program: the \<open>RangeError\<close> carrying the rejected number.\<close>

datatype error = RangeError number

definition bindE :: "error + 'a \<Rightarrow> ('a \<Rightarrow> error + 'b) \<Rightarrow> error + 'b" where
  "bindE m f = (case m of Inl e \<Rightarrow> Inl e | Inr x \<Rightarrow> f x)"

subsection \<open>Facts about the operators\<close>

lemma isInteger_Number: "isInteger (Number n)"
  by (simp add: Number_def)

lemma integerOf_Number: "integerOf (Number n) = n"
  by (simp add: Number_def)

lemma isInteger_Finite_iff: "isInteger (Finite q) = (q \<in> \<int>)"
  by (auto simp: Ints_def)

lemma isInteger_imp_Number: "isInteger x \<Longrightarrow> x = Number (integerOf x)"
  by (cases x) (auto simp: Number_def)

lemma int_and_127: "(x::int) AND 127 = x mod 128"
  using take_bit_eq_mask[of 7 x] by (simp add: take_bit_eq_mod mask_eq_exp_minus_1)

lemma int_and_64_iff: "((x::int) AND 64 = 0) = even (x div 64)"
  using and_exp_eq_0_iff_not_bit[of x 6] by (simp add: bit_iff_odd_drop_bit drop_bit_eq_div)

lemma int_and_128_iff: "((x::int) AND 128 = 0) = even (x div 128)"
  using and_exp_eq_0_iff_not_bit[of x 7] by (simp add: bit_iff_odd_drop_bit drop_bit_eq_div)

lemma int_or_128: "0 \<le> x \<Longrightarrow> x < 128 \<Longrightarrow> (x::int) OR 128 = x + 128"
proof -
  assume "0 \<le> x" "x < 128"
  then have "x AND 128 = 0" by (simp add: int_and_128_iff)
  then show ?thesis by (simp add: disjunctive_add_eq_or)
qed

lemma ToInt32_id: "- (2 ^ 31) \<le> n \<Longrightarrow> n < 2 ^ 31 \<Longrightarrow> ToInt32 n = n"
  by (simp add: ToInt32_def signed_take_bit_int_eq_self)

lemma ToInt32_range: "- (2 ^ 31) \<le> ToInt32 n" "ToInt32 n < 2 ^ 31"
  using signed_take_bit_int_greater_eq_minus_exp[of 31 n] signed_take_bit_int_less_exp[of 31 n]
  by (simp_all add: ToInt32_def)

lemma ToInt32_cong: "n mod 2 ^ 32 = m mod 2 ^ 32 \<Longrightarrow> ToInt32 n = ToInt32 m"
  by (simp add: ToInt32_def signed_take_bit_eq_iff_take_bit_eq take_bit_eq_mod)

lemma ToInt32_mod_128: "ToInt32 n mod 128 = n mod 128"
  using take_bit_signed_take_bit[of 7 31 n] by (simp add: ToInt32_def take_bit_eq_mod)

lemma ToInt32_abs_le: "\<bar>ToInt32 n\<bar> \<le> \<bar>n\<bar>"
proof (cases "- (2 ^ 31) \<le> n \<and> n < 2 ^ 31")
  case True
  then show ?thesis by (simp add: ToInt32_id)
next
  case False
  with ToInt32_range[of n] show ?thesis by linarith
qed

lemma js_and_127: "js_and n 0x7f = n mod 128"
  by (simp add: js_and_def ToInt32_id int_and_127 ToInt32_mod_128)

lemma js_shr_7: "js_shr n 7 = ToInt32 n div 128"
  by (simp add: js_shr_def drop_bit_eq_div)

lemma js_and_64: "0 \<le> b \<Longrightarrow> b < 128 \<Longrightarrow> (js_and b 0x40 = 0) = (b < 64)"
proof -
  assume b: "0 \<le> b" "b < 128"
  then have "ToInt32 b = b" by (simp add: ToInt32_id)
  moreover have "ToInt32 64 = 64" by (simp add: ToInt32_id)
  moreover from b have "even (b div 64) = (b < 64)" by presburger
  ultimately show ?thesis by (simp add: js_and_def int_and_64_iff)
qed

lemma js_or_128: "0 \<le> b \<Longrightarrow> b < 128 \<Longrightarrow> js_or b 0x80 = b + 128"
  by (simp add: js_or_def ToInt32_id int_or_128)

lemma js_or_0: "js_or n 0 = ToInt32 n"
  by (simp add: js_or_def ToInt32_def)

lemma js_shr_less: "0x7f < n \<Longrightarrow> js_shr n 7 < n"
proof -
  assume n: "0x7f < n"
  with ToInt32_abs_le[of n] have le: "ToInt32 n \<le> n" by simp
  have "ToInt32 n div 128 < n"
  proof (cases "0 < ToInt32 n")
    case True
    then have "ToInt32 n div 128 < ToInt32 n" by simp
    with le show ?thesis by simp
  next
    case False
    then have "ToInt32 n div 128 \<le> 0"
      by (simp add: div_int_pos_iff)
    with n show ?thesis by simp
  qed
  then show ?thesis by (simp add: js_shr_7)
qed

lemma encodeLEB128S_decreases:
  assumes "\<not> ((js_shr n 7 = 0 \<and> js_and (js_and n 0x7f) 0x40 = 0)
             \<or> (js_shr n 7 = -1 \<and> js_and (js_and n 0x7f) 0x40 \<noteq> 0))"
  shows "\<bar>js_shr n 7\<bar> < \<bar>n\<bar>"
proof -
  define t where "t = ToInt32 n"
  have byte: "js_and n 0x7f = t mod 128"
    by (simp add: js_and_127 t_def ToInt32_mod_128)
  have b64: "(js_and (t mod 128) 0x40 = 0) = (t mod 128 < 64)"
    by (rule js_and_64) simp_all
  from assms have "\<not> ((t div 128 = 0 \<and> js_and (t mod 128) 0x40 = 0)
      \<or> (t div 128 = -1 \<and> js_and (t mod 128) 0x40 \<noteq> 0))"
    unfolding byte js_shr_7 t_def[symmetric] .
  then have "\<not> ((t div 128 = 0 \<and> t mod 128 < 64) \<or> (t div 128 = -1 \<and> \<not> t mod 128 < 64))"
    unfolding b64 .
  moreover have "t = 128 * (t div 128) + t mod 128" "0 \<le> t mod 128" "t mod 128 < 128"
    by simp_all
  ultimately have "\<bar>t div 128\<bar> < \<bar>t\<bar>" by linarith
  with ToInt32_abs_le[of n] show ?thesis by (simp add: js_shr_7 t_def)
qed

section \<open>LEB128\<close>

text \<open>
  \<open>encodeLEB128U\<close>: the \<open>while (n > 0x7f)\<close> loop, with the buffer passed along.
\<close>

function encodeLEB128U_loop :: "int list \<Rightarrow> int \<Rightarrow> int list" where
  "encodeLEB128U_loop buffer n =
     (if n > 0x7f
      then encodeLEB128U_loop (buffer @ [js_or (js_and n 0x7f) 0x80]) (js_shr n 7)
      else buffer @ [n])"
  by pat_completeness auto
termination
proof (relation "measure (\<lambda>(buffer, n). nat n)")
  show "wf (measure (\<lambda>(buffer, n). nat n))" by simp
next
  fix buffer :: "int list" and n :: int
  assume "0x7f < n"
  then have "js_shr n 7 < n" and "0 < n" by (simp_all add: js_shr_less)
  then show "((buffer @ [js_or (js_and n 0x7f) 0x80], js_shr n 7), (buffer, n))
      \<in> measure (\<lambda>(buffer, n). nat n)"
    by simp
qed

declare encodeLEB128U_loop.simps [simp del]

definition encodeLEB128U :: "number \<Rightarrow> error + int list" where
  "encodeLEB128U n =
     (if \<not> isInteger n then Inl (RangeError n)
      else Inr (encodeLEB128U_loop [] (integerOf n)))"

text \<open>
  \<open>encodeLEB128S\<close>: \<open>n |= 0\<close> truncates to a signed 32-bit integer, then the
  \<open>while (true)\<close> loop runs until the rest is the sign of the last byte.
\<close>

function encodeLEB128S_loop :: "int list \<Rightarrow> int \<Rightarrow> int list" where
  "encodeLEB128S_loop buffer n =
     (let byte = js_and n 0x7f;
          n' = js_shr n 7
      in if (n' = 0 \<and> js_and byte 0x40 = 0) \<or> (n' = -1 \<and> js_and byte 0x40 \<noteq> 0)
         then buffer @ [byte]
         else encodeLEB128S_loop (buffer @ [js_or byte 0x80]) n')"
  by pat_completeness auto
termination
proof (relation "measure (\<lambda>(buffer, n). nat \<bar>n\<bar>)")
  show "wf (measure (\<lambda>(buffer, n). nat \<bar>n\<bar>))" by simp
next
  fix buffer :: "int list" and n byte n' :: int
  assume "byte = js_and n 0x7f" and "n' = js_shr n 7"
    and "\<not> ((n' = 0 \<and> js_and byte 0x40 = 0) \<or> (n' = -1 \<and> js_and byte 0x40 \<noteq> 0))"
  then have "\<bar>n'\<bar> < \<bar>n\<bar>"
    using encodeLEB128S_decreases[of n] by blast
  then show "((buffer @ [js_or byte 0x80], n'), (buffer, n))
      \<in> measure (\<lambda>(buffer, n). nat \<bar>n\<bar>)"
    by simp
qed

declare encodeLEB128S_loop.simps [simp del]

definition encodeLEB128S :: "number \<Rightarrow> error + int list" where
  "encodeLEB128S n =
     (if \<not> isInteger n then Inl (RangeError n)
      else Inr (encodeLEB128S_loop [] (js_or (integerOf n) 0)))"

subsection \<open>Reference decoders\<close>

text \<open>
  The decoders the round-trip properties are stated against. They are not part of the
  program: they read a LEB128 integer off the front of a byte sequence as the format
  defines it (seven payload bits per byte, low-order group first, bit \<open>0x80\<close> set on every
  byte but the last; for the signed form bit \<open>0x40\<close> of the last byte is the sign) and
  return the value with the bytes left over. An element that is not a byte is rejected.
\<close>

fun decodeLEB128U_ref :: "int list \<Rightarrow> (int \<times> int list) option" where
  "decodeLEB128U_ref [] = None"
| "decodeLEB128U_ref (b # bs) =
     (if b < 0 \<or> 255 < b then None
      else if b AND 0x80 = 0 then Some (b, bs)
      else (case decodeLEB128U_ref bs of
              None \<Rightarrow> None
            | Some (v, rest) \<Rightarrow> Some ((b AND 0x7f) + 128 * v, rest)))"

fun decodeLEB128S_ref :: "int list \<Rightarrow> (int \<times> int list) option" where
  "decodeLEB128S_ref [] = None"
| "decodeLEB128S_ref (b # bs) =
     (if b < 0 \<or> 255 < b then None
      else if b AND 0x80 = 0 then Some (if b AND 0x40 = 0 then b else b - 128, bs)
      else (case decodeLEB128S_ref bs of
              None \<Rightarrow> None
            | Some (v, rest) \<Rightarrow> Some ((b AND 0x7f) + 128 * v, rest)))"

subsection \<open>The loops, unfolded\<close>

lemma encodeLEB128U_loop_append:
  "encodeLEB128U_loop (pre @ buffer) n = pre @ encodeLEB128U_loop buffer n"
proof (induction buffer n arbitrary: pre rule: encodeLEB128U_loop.induct)
  case (1 buffer n)
  show ?case
  proof (cases "0x7f < n")
    case True
    have "encodeLEB128U_loop (pre @ buffer) n
        = encodeLEB128U_loop (pre @ (buffer @ [js_or (js_and n 0x7f) 0x80])) (js_shr n 7)"
      using True by (subst encodeLEB128U_loop.simps) simp
    also have "\<dots> = pre @ encodeLEB128U_loop (buffer @ [js_or (js_and n 0x7f) 0x80]) (js_shr n 7)"
      using True by (rule "1.IH")
    also have "\<dots> = pre @ encodeLEB128U_loop buffer n"
      using True by (subst (2) encodeLEB128U_loop.simps) simp
    finally show ?thesis .
  next
    case False
    then show ?thesis by (simp add: encodeLEB128U_loop.simps)
  qed
qed

lemma encodeLEB128U_loop_unfold:
  "encodeLEB128U_loop [] n =
     (if 0x7f < n then (n mod 128 + 128) # encodeLEB128U_loop [] (ToInt32 n div 128) else [n])"
proof (cases "0x7f < n")
  case True
  have "js_or (js_and n 0x7f) 0x80 = n mod 128 + 128"
    by (simp add: js_and_127 js_or_128)
  moreover have "encodeLEB128U_loop [] n
      = encodeLEB128U_loop ([js_or (js_and n 0x7f) 0x80] @ []) (js_shr n 7)"
    using True by (subst encodeLEB128U_loop.simps) simp
  ultimately show ?thesis
    using True by (simp only: encodeLEB128U_loop_append js_shr_7) simp
next
  case False
  then show ?thesis by (simp add: encodeLEB128U_loop.simps)
qed

lemma encodeLEB128U_loop_small: "n \<le> 0x7f \<Longrightarrow> encodeLEB128U_loop [] n = [n]"
  by (simp add: encodeLEB128U_loop.simps)

lemma decodeLEB128U_ref_last:
  "0 \<le> b \<Longrightarrow> b < 128 \<Longrightarrow> decodeLEB128U_ref (b # rest) = Some (b, rest)"
  by (simp add: int_and_128_iff)

lemma decodeLEB128U_ref_more:
  assumes "0 \<le> r" "r < 128" "decodeLEB128U_ref bs = Some (v, rest)"
  shows "decodeLEB128U_ref ((r + 128) # bs) = Some (r + 128 * v, rest)"
proof -
  from assms(1,2) have "(r + 128) div 128 = 1" by simp
  then have "(r + 128) AND 128 \<noteq> 0" by (simp add: int_and_128_iff)
  moreover from assms(1,2) have "(r + 128) AND 127 = r" by (simp add: int_and_127)
  ultimately show ?thesis using assms by simp
qed

lemma encodeLEB128U_loop_decode:
  "0 \<le> n \<Longrightarrow> n < 2 ^ 31 \<Longrightarrow>
     decodeLEB128U_ref (encodeLEB128U_loop [] n @ rest) = Some (n, rest)"
proof (induction "nat n" arbitrary: n rule: less_induct)
  case less
  show ?case
  proof (cases "0x7f < n")
    case False
    with less.prems show ?thesis
      by (subst encodeLEB128U_loop_unfold) (simp add: decodeLEB128U_ref_last del: decodeLEB128U_ref.simps)
  next
    case True
    from less.prems have t: "ToInt32 n = n" by (simp add: ToInt32_id)
    have "decodeLEB128U_ref (encodeLEB128U_loop [] (n div 128) @ rest) = Some (n div 128, rest)"
      using True less.prems by (intro less.hyps) simp_all
    then have "decodeLEB128U_ref ((n mod 128 + 128) # encodeLEB128U_loop [] (n div 128) @ rest)
        = Some (n mod 128 + 128 * (n div 128), rest)"
      by (intro decodeLEB128U_ref_more) simp_all
    with True t show ?thesis
      by (subst encodeLEB128U_loop_unfold) (simp del: decodeLEB128U_ref.simps)
  qed
qed

lemma encodeLEB128U_loop_continuation:
  "0 \<le> n \<Longrightarrow> n < 2 ^ 31 \<Longrightarrow>
     list_all (\<lambda>b. b AND 0x80 \<noteq> 0) (butlast (encodeLEB128U_loop [] n))
     \<and> last (encodeLEB128U_loop [] n) AND 0x80 = 0
     \<and> list_all (\<lambda>b. 0 \<le> b \<and> b < 256) (encodeLEB128U_loop [] n)"
proof (induction "nat n" arbitrary: n rule: less_induct)
  case less
  show ?case
  proof (cases "0x7f < n")
    case False
    with less.prems show ?thesis
      by (subst (1 2 3) encodeLEB128U_loop_unfold) (simp add: int_and_128_iff)
  next
    case True
    from less.prems have t: "ToInt32 n = n" by (simp add: ToInt32_id)
    have ne: "encodeLEB128U_loop [] (n div 128) \<noteq> []"
      by (subst encodeLEB128U_loop_unfold) simp
    have "(n mod 128 + 128) div 128 = 1" by simp
    then have hi: "(n mod 128 + 128) AND 128 \<noteq> 0" by (simp add: int_and_128_iff)
    have IH: "list_all (\<lambda>b. b AND 0x80 \<noteq> 0) (butlast (encodeLEB128U_loop [] (n div 128)))
     \<and> last (encodeLEB128U_loop [] (n div 128)) AND 0x80 = 0
     \<and> list_all (\<lambda>b. 0 \<le> b \<and> b < 256) (encodeLEB128U_loop [] (n div 128))"
      using True less.prems by (intro less.hyps) simp_all
    have "encodeLEB128U_loop [] n = (n mod 128 + 128) # encodeLEB128U_loop [] (n div 128)"
      using True t by (subst encodeLEB128U_loop_unfold) simp
    with IH ne hi show ?thesis by simp
  qed
qed

lemma encodeLEB128S_loop_stop:
  "(js_shr n 7 = 0 \<and> js_and (js_and n 0x7f) 0x40 = 0)
     \<or> (js_shr n 7 = -1 \<and> js_and (js_and n 0x7f) 0x40 \<noteq> 0) \<Longrightarrow>
   encodeLEB128S_loop buffer n = buffer @ [js_and n 0x7f]"
  by (subst encodeLEB128S_loop.simps) (simp only: Let_def if_True if_False if_P if_not_P)

lemma encodeLEB128S_loop_step:
  "\<not> ((js_shr n 7 = 0 \<and> js_and (js_and n 0x7f) 0x40 = 0)
     \<or> (js_shr n 7 = -1 \<and> js_and (js_and n 0x7f) 0x40 \<noteq> 0)) \<Longrightarrow>
   encodeLEB128S_loop buffer n
     = encodeLEB128S_loop (buffer @ [js_or (js_and n 0x7f) 0x80]) (js_shr n 7)"
  by (subst encodeLEB128S_loop.simps) (simp only: Let_def if_True if_False if_P if_not_P)

lemma encodeLEB128S_loop_append:
  "encodeLEB128S_loop (pre @ buffer) n = pre @ encodeLEB128S_loop buffer n"
proof (induction buffer n arbitrary: pre rule: encodeLEB128S_loop.induct)
  case (1 buffer n)
  show ?case
  proof (cases "(js_shr n 7 = 0 \<and> js_and (js_and n 0x7f) 0x40 = 0)
     \<or> (js_shr n 7 = -1 \<and> js_and (js_and n 0x7f) 0x40 \<noteq> 0)")
    case True
    then show ?thesis
      by (simp only: encodeLEB128S_loop_stop append_assoc)
  next
    case False
    have "encodeLEB128S_loop (pre @ buffer) n
        = encodeLEB128S_loop (pre @ (buffer @ [js_or (js_and n 0x7f) 0x80])) (js_shr n 7)"
      using encodeLEB128S_loop_step[OF False, of "pre @ buffer"] by simp
    also have "\<dots> = pre @ encodeLEB128S_loop (buffer @ [js_or (js_and n 0x7f) 0x80]) (js_shr n 7)"
      using False by (intro "1.IH"[OF refl refl])
    also have "\<dots> = pre @ encodeLEB128S_loop buffer n"
      using encodeLEB128S_loop_step[OF False, of buffer] by simp
    finally show ?thesis .
  qed
qed

lemma encodeLEB128S_loop_unfold:
  "encodeLEB128S_loop [] n =
     (if (ToInt32 n div 128 = 0 \<and> n mod 128 < 64) \<or> (ToInt32 n div 128 = -1 \<and> \<not> n mod 128 < 64)
      then [n mod 128]
      else (n mod 128 + 128) # encodeLEB128S_loop [] (ToInt32 n div 128))"
proof -
  have b64: "(js_and (n mod 128) 0x40 = 0) = (n mod 128 < 64)"
    by (rule js_and_64) simp_all
  have or: "js_or (n mod 128) 0x80 = n mod 128 + 128"
    by (rule js_or_128) simp_all
  have "encodeLEB128S_loop [] n =
     (if (ToInt32 n div 128 = 0 \<and> n mod 128 < 64) \<or> (ToInt32 n div 128 = -1 \<and> \<not> n mod 128 < 64)
      then [n mod 128]
      else encodeLEB128S_loop ([n mod 128 + 128] @ []) (ToInt32 n div 128))"
    by (subst encodeLEB128S_loop.simps) (simp add: Let_def js_and_127 js_shr_7 b64 or)
  then show ?thesis by (simp only: encodeLEB128S_loop_append) simp
qed

lemma decodeLEB128S_ref_last:
  "0 \<le> b \<Longrightarrow> b < 128 \<Longrightarrow>
     decodeLEB128S_ref (b # rest) = Some (if b < 64 then b else b - 128, rest)"
proof -
  assume b: "0 \<le> b" "b < 128"
  then have "even (b div 64) = (b < 64)" by presburger
  with b show ?thesis by (simp add: int_and_128_iff int_and_64_iff)
qed

lemma decodeLEB128S_ref_more:
  assumes "0 \<le> r" "r < 128" "decodeLEB128S_ref bs = Some (v, rest)"
  shows "decodeLEB128S_ref ((r + 128) # bs) = Some (r + 128 * v, rest)"
proof -
  from assms(1,2) have "(r + 128) div 128 = 1" by simp
  then have "(r + 128) AND 128 \<noteq> 0" by (simp add: int_and_128_iff)
  moreover from assms(1,2) have "(r + 128) AND 127 = r" by (simp add: int_and_127)
  ultimately show ?thesis using assms by simp
qed

lemma encodeLEB128S_loop_decode:
  "- (2 ^ 31) \<le> n \<Longrightarrow> n < 2 ^ 31 \<Longrightarrow>
     decodeLEB128S_ref (encodeLEB128S_loop [] n @ rest) = Some (n, rest)"
proof (induction "nat \<bar>n\<bar>" arbitrary: n rule: less_induct)
  case less
  from less.prems have t: "ToInt32 n = n" by (simp add: ToInt32_id)
  have dm: "n = 128 * (n div 128) + n mod 128" "0 \<le> n mod 128" "n mod 128 < 128"
    by simp_all
  show ?case
  proof (cases "(n div 128 = 0 \<and> n mod 128 < 64) \<or> (n div 128 = -1 \<and> \<not> n mod 128 < 64)")
    case True
    then have enc: "encodeLEB128S_loop [] n = [n mod 128]"
      using t by (subst encodeLEB128S_loop_unfold) simp
    from True consider (pos) "n div 128 = 0" "n mod 128 < 64"
      | (neg) "n div 128 = -1" "\<not> n mod 128 < 64"
      by blast
    then have "(if n mod 128 < 64 then n mod 128 else n mod 128 - 128) = n"
    proof cases
      case pos
      with dm(1) have "n mod 128 = n" by linarith
      with pos show ?thesis by simp
    next
      case neg
      with dm(1) have "n mod 128 - 128 = n" by linarith
      with neg show ?thesis by simp
    qed
    then show ?thesis
      by (simp add: enc decodeLEB128S_ref_last del: decodeLEB128S_ref.simps)
  next
    case False
    then have enc: "encodeLEB128S_loop [] n = (n mod 128 + 128) # encodeLEB128S_loop [] (n div 128)"
      using t by (subst encodeLEB128S_loop_unfold) simp
    from False dm have "\<bar>n div 128\<bar> < \<bar>n\<bar>" by linarith
    moreover from less.prems dm have "- (2 ^ 31) \<le> n div 128" "n div 128 < 2 ^ 31"
      by linarith+
    ultimately have "decodeLEB128S_ref (encodeLEB128S_loop [] (n div 128) @ rest)
        = Some (n div 128, rest)"
      by (intro less.hyps) simp_all
    then have "decodeLEB128S_ref ((n mod 128 + 128) # encodeLEB128S_loop [] (n div 128) @ rest)
        = Some (n mod 128 + 128 * (n div 128), rest)"
      by (intro decodeLEB128S_ref_more) simp_all
    then show ?thesis by (simp add: enc del: decodeLEB128S_ref.simps)
  qed
qed

section \<open>Vectors and sections\<close>

text \<open>
  \<open>Array.prototype.flatMap\<close> with a callback that may throw: the callback runs on the
  items in order, and the first exception ends the whole call.
\<close>

fun flatMap :: "('a \<Rightarrow> error + 'b list) \<Rightarrow> 'a list \<Rightarrow> error + 'b list" where
  "flatMap f [] = Inr []"
| "flatMap f (x # xs) = bindE (f x) (\<lambda>a. bindE (flatMap f xs) (\<lambda>b. Inr (a @ b)))"

lemma flatMap_cong [fundef_cong]:
  "xs = ys \<Longrightarrow> (\<And>x. x \<in> set ys \<Longrightarrow> f x = g x) \<Longrightarrow> flatMap f xs = flatMap g ys"
  by (induction ys arbitrary: xs) auto

text \<open>The \<open>length\<close> of an array, as the number it is.\<close>

definition lengthOf :: "'a list \<Rightarrow> number" where
  "lengthOf xs = Number (int (length xs))"

definition encodeVector :: "'a list \<Rightarrow> ('a \<Rightarrow> error + int list) \<Rightarrow> error + int list" where
  "encodeVector items encodeFn =
     bindE (encodeLEB128U (lengthOf items)) (\<lambda>n.
     bindE (flatMap (\<lambda>item. encodeFn item) items) (\<lambda>bs.
     Inr (n @ bs)))"

definition encodeSection ::
  "int \<Rightarrow> 'a list \<Rightarrow> ('a \<Rightarrow> error + int list) \<Rightarrow> error + int list" where
  "encodeSection id' items encodeFn =
     bindE (encodeVector items encodeFn) (\<lambda>bytes.
     bindE (encodeLEB128U (lengthOf bytes)) (\<lambda>n.
     Inr (id' # n @ bytes)))"

section \<open>Types\<close>

definition encodePreamble :: "int list" where
  "encodePreamble = [0x00, 0x61, 0x73, 0x6d, 0x01, 0x00, 0x00, 0x00]"

datatype NumType = i32 | i64 | f32 | f64

datatype RefType = funcRef | externRef

datatype ValueType = Ref RefType | Num NumType

fun NumType_value :: "NumType \<Rightarrow> int" where
  "NumType_value i32 = 0x7f"
| "NumType_value i64 = 0x7e"
| "NumType_value f32 = 0x7d"
| "NumType_value f64 = 0x7c"

fun RefType_value :: "RefType \<Rightarrow> int" where
  "RefType_value funcRef = 0x70"
| "RefType_value externRef = 0x6f"

fun ValueType_value :: "ValueType \<Rightarrow> int" where
  "ValueType_value (Ref r) = RefType_value r"
| "ValueType_value (Num n) = NumType_value n"

record FuncType =
  paramTypes :: "ValueType list"
  returnTypes :: "ValueType list"

definition encodeFuncType :: "FuncType \<Rightarrow> error + int list" where
  "encodeFuncType funcType =
     bindE (encodeVector (paramTypes funcType) (\<lambda>a. Inr [ValueType_value a])) (\<lambda>ps.
     bindE (encodeVector (returnTypes funcType) (\<lambda>a. Inr [ValueType_value a])) (\<lambda>rs.
     Inr (0x60 # ps @ rs)))"

definition encodeTypeSection :: "FuncType list \<Rightarrow> error + int list" where
  "encodeTypeSection types = encodeSection 1 types encodeFuncType"

definition encodeFuncSection :: "number list \<Rightarrow> error + int list" where
  "encodeFuncSection typeIndicies = encodeSection 3 typeIndicies encodeLEB128U"

section \<open>Memories\<close>

text \<open>
  \<open>max?: number\<close>: the field is optional. \<open>if (limits.max)\<close> tests the truthiness of
  the field, so an absent maximum, a zero and a NaN take the else branch.
\<close>

record Limits =
  limits_min :: number
  limits_max :: "number option"

definition encodeLimits :: "Limits \<Rightarrow> error + int list" where
  "encodeLimits limits =
     (if (case limits_max limits of None \<Rightarrow> False | Some m \<Rightarrow> truthy m)
      then bindE (encodeLEB128U (limits_min limits)) (\<lambda>lo.
           bindE (encodeLEB128U (the (limits_max limits))) (\<lambda>hi.
           Inr (0x01 # lo @ hi)))
      else bindE (encodeLEB128U (limits_min limits)) (\<lambda>lo.
           Inr (0x00 # lo)))"

definition encodeMemorySection :: "Limits list \<Rightarrow> error + int list" where
  "encodeMemorySection memories = encodeSection 5 memories encodeLimits"

section \<open>Exports\<close>

datatype ExportType = Function | Table | Memory | Global

fun ExportType_value :: "ExportType \<Rightarrow> int" where
  "ExportType_value Function = 0"
| "ExportType_value Table = 1"
| "ExportType_value Memory = 2"
| "ExportType_value Global = 3"

record Export =
  export_name :: string
  export_type :: ExportType
  export_index :: number

text \<open>
  \<open>TextEncoder.encode\<close> gives the UTF-8 bytes of the name. A name is modelled as the
  list of its bytes (a \<open>string\<close>), which for the ASCII names of the program is the
  name itself.
\<close>

definition TextEncoder_encode :: "string \<Rightarrow> int list" where
  "TextEncoder_encode name = map (\<lambda>c. int (of_char c)) name"

definition encodeExport :: "Export \<Rightarrow> error + int list" where
  "encodeExport exportEntry =
     (let nameBytes = TextEncoder_encode (export_name exportEntry)
      in bindE (encodeLEB128U (lengthOf nameBytes)) (\<lambda>n.
         bindE (encodeLEB128U (export_index exportEntry)) (\<lambda>i.
         Inr (n @ nameBytes @ [ExportType_value (export_type exportEntry)] @ i))))"

definition encodeExportSection :: "Export list \<Rightarrow> error + int list" where
  "encodeExportSection exports = encodeSection 7 exports encodeExport"

section \<open>Instructions\<close>

datatype InstrType =
    T_If | T_BrIf | T_Return | T_Call | T_Drop | T_I32Load | T_I32Const | T_I32GtS
  | T_I32Eq | T_I32Add | T_I32Mul | T_I32DivU | T_LocalGet | T_LocalSet | T_LocalTee

fun InstrType_value :: "InstrType \<Rightarrow> int" where
  "InstrType_value T_If = 0x04"
| "InstrType_value T_BrIf = 0x0d"
| "InstrType_value T_Return = 0x0f"
| "InstrType_value T_Call = 0x10"
| "InstrType_value T_Drop = 0x1a"
| "InstrType_value T_I32Load = 0x28"
| "InstrType_value T_I32Const = 0x41"
| "InstrType_value T_I32GtS = 0x4a"
| "InstrType_value T_I32Eq = 0x46"
| "InstrType_value T_I32Add = 0x6a"
| "InstrType_value T_I32Mul = 0x6c"
| "InstrType_value T_I32DivU = 0x6e"
| "InstrType_value T_LocalGet = 0x20"
| "InstrType_value T_LocalSet = 0x21"
| "InstrType_value T_LocalTee = 0x22"

text \<open>
  An \<open>Instruction\<close> is a tuple whose first component is the \<open>InstrType\<close>; each
  constructor stands for one shape of the union and carries the other components.
\<close>

datatype Instruction =
    I32Load number number
  | I32Const number
  | I32GtS
  | I32Eq
  | I32Add
  | I32Mul
  | I32DivU
  | LocalGet number
  | LocalSet number
  | LocalTee number
  | Drop
  | BrIf number
  | Return
  | Call number
  | If' ValueType "Instruction list" "Instruction list"

text \<open>
  \<open>encodeInstruction\<close> switches on the first component and emits it, then the operands;
  a conditional encodes both branches with itself.
\<close>

fun encodeInstruction :: "Instruction \<Rightarrow> error + int list" where
  "encodeInstruction (I32Load align offset) =
     bindE (encodeLEB128U align) (\<lambda>a.
     bindE (encodeLEB128U offset) (\<lambda>b.
     Inr (InstrType_value T_I32Load # a @ b)))"
| "encodeInstruction I32GtS = Inr [InstrType_value T_I32GtS]"
| "encodeInstruction I32Eq = Inr [InstrType_value T_I32Eq]"
| "encodeInstruction I32Add = Inr [InstrType_value T_I32Add]"
| "encodeInstruction I32Mul = Inr [InstrType_value T_I32Mul]"
| "encodeInstruction I32DivU = Inr [InstrType_value T_I32DivU]"
| "encodeInstruction Return = Inr [InstrType_value T_Return]"
| "encodeInstruction Drop = Inr [InstrType_value T_Drop]"
| "encodeInstruction (I32Const n) =
     bindE (encodeLEB128S n) (\<lambda>a. Inr (InstrType_value T_I32Const # a))"
| "encodeInstruction (LocalGet n) =
     bindE (encodeLEB128U n) (\<lambda>a. Inr (InstrType_value T_LocalGet # a))"
| "encodeInstruction (LocalSet n) =
     bindE (encodeLEB128U n) (\<lambda>a. Inr (InstrType_value T_LocalSet # a))"
| "encodeInstruction (LocalTee n) =
     bindE (encodeLEB128U n) (\<lambda>a. Inr (InstrType_value T_LocalTee # a))"
| "encodeInstruction (BrIf n) =
     bindE (encodeLEB128U n) (\<lambda>a. Inr (InstrType_value T_BrIf # a))"
| "encodeInstruction (Call n) =
     bindE (encodeLEB128U n) (\<lambda>a. Inr (InstrType_value T_Call # a))"
| "encodeInstruction (If' t thn els) =
     bindE (flatMap encodeInstruction thn) (\<lambda>a.
     bindE (flatMap encodeInstruction els) (\<lambda>b.
     Inr (InstrType_value T_If # ValueType_value t # a @ [0x05] @ b @ [0x0b])))"

section \<open>Function bodies and the code section\<close>

record FuncBody =
  locals :: "(number \<times> ValueType) list"
  instructions :: "Instruction list"

definition encodeFuncBody :: "FuncBody \<Rightarrow> error + int list" where
  "encodeFuncBody body =
     bindE (encodeVector (locals body)
              (\<lambda>(count, type). bindE (encodeLEB128U count) (\<lambda>c. Inr (c @ [ValueType_value type])))) (\<lambda>ls.
     bindE (flatMap encodeInstruction (instructions body)) (\<lambda>is.
     (let encodedBody = ls @ is @ [0x0b]
      in bindE (encodeLEB128U (lengthOf encodedBody)) (\<lambda>n.
         Inr (n @ encodedBody)))))"

definition encodeCodeSection :: "FuncBody list \<Rightarrow> error + int list" where
  "encodeCodeSection bodies = encodeSection 10 bodies encodeFuncBody"

section \<open>The module\<close>

text \<open>
  \<open>new Uint8Array(array)\<close> stores each element modulo 256. \<open>encodeModule\<close> takes no
  argument: the module it encodes is written out in its body.
\<close>

definition Uint8Array :: "int list \<Rightarrow> 8 word list" where
  "Uint8Array xs = map word_of_int xs"

definition encodeModule :: "error + 8 word list" where
  "encodeModule =
     bindE (encodeTypeSection
       [\<lparr>paramTypes = [Num i32, Num i32, Num i32, Num i32], returnTypes = [Num i32]\<rparr>]) (\<lambda>types.
     bindE (encodeFuncSection [Number 0]) (\<lambda>funcs.
     bindE (encodeMemorySection [\<lparr>limits_min = Number 1, limits_max = None\<rparr>]) (\<lambda>memories.
     bindE (encodeExportSection
       [\<lparr>export_name = ''binarySearch'', export_type = Function, export_index = Number 0\<rparr>,
        \<lparr>export_name = ''memory'', export_type = Memory, export_index = Number 0\<rparr>]) (\<lambda>exports.
     bindE (encodeCodeSection
       [\<lparr>locals = [(Number 2, Num i32)],
         instructions =
          [LocalGet (Number 2),
           LocalGet (Number 3),
           I32Add,
           I32Const (Number 2),
           I32DivU,
           LocalTee (Number 4),
           LocalGet (Number 4),
           LocalGet (Number 0),
           I32Add,
           I32Const (Number 4),
           I32Mul,
           I32Load (Number 0) (Number 0),
           LocalTee (Number 5),
           LocalGet (Number 1),
           I32Eq,
           BrIf (Number 0),
           Drop,
           I32Const (Number (- 1)),
           LocalGet (Number 4),
           LocalGet (Number 2),
           I32Eq,
           BrIf (Number 0),
           Drop,
           LocalGet (Number 1),
           LocalGet (Number 5),
           I32GtS,
           If' (Num i32)
            [LocalGet (Number 0),
             LocalGet (Number 1),
             LocalGet (Number 4),
             LocalGet (Number 3),
             Call (Number 0)]
            [LocalGet (Number 0),
             LocalGet (Number 1),
             LocalGet (Number 2),
             LocalGet (Number 4),
             Call (Number 0)]]\<rparr>]) (\<lambda>code.
     Inr (Uint8Array (encodePreamble @ types @ funcs @ memories @ exports @ code)))))))"

section \<open>Properties of the LEB128 encoders\<close>

lemma floor_rat_divide_numeral:
  "\<lfloor>numeral a / numeral b :: rat\<rfloor> = numeral a div numeral b"
  using floor_divide_of_int_eq[of "numeral a" "numeral b", where ?'a = rat] by simp

lemmas js_eval = js_or_def js_and_def js_shr_def ToInt32_def

lemma encodeLEB128U_Number:
  "encodeLEB128U (Number n) = Inr (encodeLEB128U_loop [] n)"
  by (simp add: encodeLEB128U_def isInteger_Number integerOf_Number)

lemma encodeLEB128S_Number:
  "encodeLEB128S (Number n) = Inr (encodeLEB128S_loop [] (ToInt32 n))"
  by (simp add: encodeLEB128S_def isInteger_Number integerOf_Number js_or_0)

text \<open>Below \<open>2^31\<close> the unsigned encoder is right.\<close>

lemma encodeLEB128U_roundtrip_below_2p31:
  assumes "0 \<le> n" "n < 2 ^ 31"
  shows "\<exists>bs. encodeLEB128U (Number n) = Inr bs
           \<and> decodeLEB128U_ref (bs @ rest) = Some (n, rest)
           \<and> list_all (\<lambda>b. b AND 0x80 \<noteq> 0) (butlast bs) \<and> last bs AND 0x80 = 0"
  using assms encodeLEB128U_loop_decode[of n rest] encodeLEB128U_loop_continuation[of n]
  by (simp add: encodeLEB128U_Number)

text \<open>
  From \<open>2^31\<close> up to \<open>2^32\<close> it returns two elements, the second one negative.
\<close>

lemma encodeLEB128U_upper_half:
  assumes "2 ^ 31 \<le> n" "n < 2 ^ 32"
  shows "encodeLEB128U (Number n) = Inr [n mod 128 + 128, (n - 2 ^ 32) div 128]"
    and "(n - 2 ^ 32) div 128 < 0"
proof -
  have "ToInt32 n = ToInt32 (n - 2 ^ 32)"
    by (rule ToInt32_cong) simp
  also from assms have "\<dots> = n - 2 ^ 32"
    by (intro ToInt32_id) simp_all
  finally have t: "ToInt32 n = n - 2 ^ 32" .
  from assms show neg: "(n - 2 ^ 32) div 128 < 0"
    by (simp add: div_neg_pos_less0)
  then have "encodeLEB128U_loop [] ((n - 2 ^ 32) div 128) = [(n - 2 ^ 32) div 128]"
    by (intro encodeLEB128U_loop_small) simp
  moreover from assms have "0x7f < n" by simp
  ultimately show "encodeLEB128U (Number n) = Inr [n mod 128 + 128, (n - 2 ^ 32) div 128]"
    using t by (simp add: encodeLEB128U_Number encodeLEB128U_loop_unfold[of n])
qed

text \<open>
  C1. For every \<open>n\<close> with \<open>0 \<le> n < 2^32\<close> the bytes of \<open>encodeLEB128U n\<close> should decode
  to \<open>n\<close>, every byte but the last with bit \<open>0x80\<close> set. At \<open>n = 2^31\<close> they do not:
  \<open>n >> 7\<close> propagates the sign of the 32-bit value, the loop stops on the negative
  rest and pushes it. The result \<open>[128, -16777216]\<close> is no byte sequence, and stored in
  a \<open>Uint8Array\<close> it is \<open>[128, 0]\<close>, which decodes to 0.
\<close>

theorem encodeLEB128U_at_2p31:
  "encodeLEB128U (Number 2147483648) = Inr [128, - 16777216]
   \<and> decodeLEB128U_ref [128, - 16777216] = None
   \<and> Uint8Array [128, - 16777216] = [128, 0]
   \<and> decodeLEB128U_ref [128, 0] = Some (0, [])"
  by (simp add: encodeLEB128U_Number encodeLEB128U_loop.simps js_eval Uint8Array_def)

text \<open>
  C2. \<open>encodeLEB128S\<close> gives \<open>[0x00]\<close> for 0, \<open>[0x7f]\<close> for -1, \<open>[0xc0, 0x00]\<close> for 64 and
  \<open>[0x85, 0x7f]\<close> for -123, and for every \<open>n\<close> of the signed 32-bit range the reference
  signed decoder reads \<open>n\<close> back from \<open>encodeLEB128S n\<close>, using all the bytes.
\<close>

theorem encodeLEB128S_roundtrip:
  "encodeLEB128S (Number 0) = Inr [0x00]
   \<and> encodeLEB128S (Number (- 1)) = Inr [0x7f]
   \<and> encodeLEB128S (Number 64) = Inr [0xc0, 0x00]
   \<and> encodeLEB128S (Number (- 123)) = Inr [0x85, 0x7f]
   \<and> (\<forall>n. - (2 ^ 31) \<le> n \<and> n < 2 ^ 31 \<longrightarrow>
         (\<exists>bs. encodeLEB128S (Number n) = Inr bs \<and> decodeLEB128S_ref bs = Some (n, [])))"
proof (intro conjI allI impI)
  show "encodeLEB128S (Number 0) = Inr [0x00]"
    by (simp add: encodeLEB128S_Number encodeLEB128S_loop.simps js_eval)
  show "encodeLEB128S (Number (- 1)) = Inr [0x7f]"
    by (simp add: encodeLEB128S_Number encodeLEB128S_loop.simps js_eval)
  show "encodeLEB128S (Number 64) = Inr [0xc0, 0x00]"
    by (simp add: encodeLEB128S_Number encodeLEB128S_loop.simps js_eval)
  show "encodeLEB128S (Number (- 123)) = Inr [0x85, 0x7f]"
    by (simp add: encodeLEB128S_Number encodeLEB128S_loop.simps js_eval)
next
  fix n :: int
  assume n: "- (2 ^ 31) \<le> n \<and> n < 2 ^ 31"
  then have "ToInt32 n = n" by (simp add: ToInt32_id)
  moreover from n have "decodeLEB128S_ref (encodeLEB128S_loop [] n @ []) = Some (n, [])"
    by (intro encodeLEB128S_loop_decode) simp_all
  ultimately show "\<exists>bs. encodeLEB128S (Number n) = Inr bs \<and> decodeLEB128S_ref bs = Some (n, [])"
    by (simp add: encodeLEB128S_Number)
qed

text \<open>The round trip of C2 at the least 32-bit integer.\<close>

theorem encodeLEB128S_roundtrip_witness:
  "- (2 ^ 31) \<le> (- 2147483648 :: int) \<and> (- 2147483648 :: int) < 2 ^ 31
   \<and> (\<exists>bs. encodeLEB128S (Number (- 2147483648)) = Inr bs
          \<and> decodeLEB128S_ref bs = Some (- 2147483648, []))"
  using encodeLEB128S_roundtrip by simp

text \<open>
  C3, as stated, has \<open>encodeLEB128U\<close> fail on every negative integer. It does not: the
  only check is \<open>Number.isInteger\<close>, and \<open>-1\<close> comes back as \<open>[-1]\<close>.
\<close>

theorem encodeLEB128U_negative_returns:
  "encodeLEB128U (Number (- 1)) = Inr [- 1]"
  by (simp add: encodeLEB128U_Number encodeLEB128U_loop.simps)

text \<open>
  C3, amended. \<open>encodeLEB128U\<close> raises the \<open>RangeError\<close> if and only if its argument is
  not an integer (a fraction, NaN or an infinity), and the error carries the argument. In
  particular it raises on every fractional input, and on every negative integer \<open>n\<close> it
  returns normally, with the one-element sequence \<open>[n]\<close>.
\<close>

theorem encodeLEB128U_raises_iff:
  "((\<exists>e. encodeLEB128U x = Inl e) = (\<not> isInteger x))
   \<and> (\<not> isInteger x \<longrightarrow> encodeLEB128U x = Inl (RangeError x))
   \<and> (\<forall>q. q \<notin> \<int> \<longrightarrow> encodeLEB128U (Finite q) = Inl (RangeError (Finite q)))
   \<and> (\<forall>n. n < 0 \<longrightarrow> encodeLEB128U (Number n) = Inr [n])"
proof (intro conjI allI impI)
  show "(\<exists>e. encodeLEB128U x = Inl e) = (\<not> isInteger x)"
    by (simp add: encodeLEB128U_def)
  show "encodeLEB128U x = Inl (RangeError x)" if "\<not> isInteger x"
    using that by (simp add: encodeLEB128U_def)
  show "encodeLEB128U (Finite q) = Inl (RangeError (Finite q))" if "q \<notin> \<int>" for q
    using that by (simp add: encodeLEB128U_def isInteger_Finite_iff del: isInteger.simps)
  show "encodeLEB128U (Number n) = Inr [n]" if "n < 0" for n
    using that by (simp add: encodeLEB128U_Number encodeLEB128U_loop.simps)
qed

text \<open>C3, amended, at the fraction \<open>3/2\<close> and at the negative integer \<open>-5\<close>.\<close>

theorem encodeLEB128U_raises_iff_witness:
  "\<not> isInteger (Finite (3 / 2)) \<and> (3 / 2 :: rat) \<notin> \<int>
   \<and> encodeLEB128U (Finite (3 / 2)) = Inl (RangeError (Finite (3 / 2)))
   \<and> (- 5 :: int) < 0 \<and> encodeLEB128U (Number (- 5)) = Inr [- 5]"
proof -
  have frac: "\<not> isInteger (Finite (3 / 2))"
    by (simp add: floor_rat_divide_numeral)
  then have notin: "(3 / 2 :: rat) \<notin> \<int>"
    using isInteger_Finite_iff[of "3 / 2"] by blast
  have neg: "(- 5 :: int) < 0" by simp
  from encodeLEB128U_raises_iff[of "Finite (3 / 2)"] frac notin neg
  show ?thesis by blast
qed

text \<open>
  C9. \<open>encodeLEB128S\<close> truncates its argument to 32 bits before encoding: for every
  integer \<open>n\<close>, with \<open>m\<close> the signed 32-bit integer congruent to \<open>n\<close> modulo \<open>2^32\<close>,
  \<open>encodeLEB128S n\<close> equals \<open>encodeLEB128S m\<close>; it does not fail, and its bytes decode
  to \<open>m\<close>.
\<close>

theorem encodeLEB128S_truncates:
  assumes "- (2 ^ 31) \<le> m" "m < 2 ^ 31" "n mod 2 ^ 32 = m mod 2 ^ 32"
  shows "encodeLEB128S (Number n) = encodeLEB128S (Number m)
         \<and> (\<exists>bs. encodeLEB128S (Number n) = Inr bs \<and> decodeLEB128S_ref bs = Some (m, []))"
proof -
  from assms(3) have "ToInt32 n = ToInt32 m" by (rule ToInt32_cong)
  moreover from assms(1,2) have "ToInt32 m = m" by (rule ToInt32_id)
  moreover from assms(1,2) have "decodeLEB128S_ref (encodeLEB128S_loop [] m @ []) = Some (m, [])"
    by (rule encodeLEB128S_loop_decode)
  ultimately show ?thesis by (simp add: encodeLEB128S_Number)
qed

text \<open>
  C9 at \<open>n = 2^31\<close>, one past the signed range: it encodes as \<open>-2^31\<close>.
\<close>

theorem encodeLEB128S_truncates_witness:
  "- (2 ^ 31) \<le> (- 2147483648 :: int) \<and> (- 2147483648 :: int) < 2 ^ 31
   \<and> (2147483648 :: int) mod 2 ^ 32 = (- 2147483648) mod 2 ^ 32
   \<and> encodeLEB128S (Number 2147483648) = encodeLEB128S (Number (- 2147483648))
   \<and> (\<exists>bs. encodeLEB128S (Number 2147483648) = Inr bs
          \<and> decodeLEB128S_ref bs = Some (- 2147483648, []))"
proof -
  have lo: "- (2 ^ 31) \<le> (- 2147483648 :: int)" by simp
  have hi: "(- 2147483648 :: int) < 2 ^ 31" by simp
  have cong: "(2147483648 :: int) mod 2 ^ 32 = (- 2147483648) mod 2 ^ 32" by simp
  from lo hi cong encodeLEB128S_truncates[OF lo hi cong] show ?thesis by blast
qed

section \<open>Properties of vectors, sections and limits\<close>

lemma bindE_Inr: "bindE (Inr x) f = f x"
  by (simp add: bindE_def)

lemma bindE_Inl: "bindE (Inl e) f = Inl e"
  by (simp add: bindE_def)

lemma encodeLEB128U_lengthOf:
  "encodeLEB128U (lengthOf xs) = Inr (encodeLEB128U_loop [] (int (length xs)))"
  by (simp add: lengthOf_def encodeLEB128U_Number)

lemma encodeVector_Nil: "encodeVector [] f = Inr [0]"
  by (simp add: encodeVector_def encodeLEB128U_lengthOf encodeLEB128U_loop_small bindE_Inr)

text \<open>
  C4, as stated, has \<open>encodeSection(1, [], f)\<close> equal to \<open>[0x01, 0x00]\<close>. It is not: the
  payload of a section is the encoded vector, and the empty vector is the one byte
  \<open>0x00\<close> of its count.
\<close>

theorem encodeSection_1_empty_not_two_bytes:
  "encodeSection 1 [] encodeLEB128U \<noteq> Inr [0x01, 0x00]"
  by (simp add: encodeSection_def encodeVector_Nil encodeLEB128U_lengthOf
      encodeLEB128U_loop_small bindE_Inr)

text \<open>
  C4, amended. For every element encoder \<open>f\<close>, \<open>encodeSection(1, [], f)\<close> is the three
  bytes \<open>[0x01, 0x01, 0x00]\<close>: the id, the payload length 1, and the count 0.
\<close>

theorem encodeSection_1_empty:
  "encodeSection 1 [] f = Inr [0x01, 0x01, 0x00]"
  by (simp add: encodeSection_def encodeVector_Nil encodeLEB128U_lengthOf
      encodeLEB128U_loop_small bindE_Inr)

text \<open>
  C5. \<open>encodeLimits\<close> should emit the flag byte 1 whenever the maximum is present, a
  maximum of 0 included. \<open>if (limits.max)\<close> is false for a present 0: the limits
  \<open>{min: 0, max: 0}\<close> are encoded as \<open>[0x00, 0x00]\<close>, flag 0 and no maximum, exactly as
  \<open>{min: 0}\<close> is.
\<close>

theorem encodeLimits_max_zero:
  "encodeLimits \<lparr>limits_min = Number 0, limits_max = Some (Number 0)\<rparr> = Inr [0x00, 0x00]
   \<and> encodeLimits \<lparr>limits_min = Number 0, limits_max = Some (Number 0)\<rparr>
       = encodeLimits \<lparr>limits_min = Number 0, limits_max = None\<rparr>"
  by (simp add: encodeLimits_def Number_def encodeLEB128U_def encodeLEB128U_loop_small bindE_Inr)

lemma encodeLimits_max_truthy:
  "truthy m \<Longrightarrow>
   encodeLimits \<lparr>limits_min = lo, limits_max = Some m\<rparr> =
     bindE (encodeLEB128U lo) (\<lambda>a. bindE (encodeLEB128U m) (\<lambda>b. Inr (0x01 # a @ b)))"
  by (simp add: encodeLimits_def)

lemma encodeLimits_max_absent:
  "encodeLimits \<lparr>limits_min = lo, limits_max = None\<rparr> =
     bindE (encodeLEB128U lo) (\<lambda>a. Inr (0x00 # a))"
  by (simp add: encodeLimits_def)

lemma encodeSection_error:
  "encodeVector items f = Inl e \<Longrightarrow> encodeSection id' items f = Inl e"
  by (simp add: encodeSection_def bindE_Inl)

lemma encodeSection_payload:
  "encodeVector items f = Inr payload \<Longrightarrow>
   encodeSection id' items f = Inr (id' # encodeLEB128U_loop [] (int (length payload)) @ payload)"
  by (simp add: encodeSection_def encodeLEB128U_lengthOf bindE_Inr)

text \<open>
  C6. For every id, item list and element encoder: when \<open>encodeVector items f\<close> returns
  the payload, \<open>encodeSection id items f\<close> is the id byte, then \<open>encodeLEB128U\<close> of the
  length of the payload, then the payload. The prefix counts the payload alone: read
  back (for a payload below \<open>2^31\<close> bytes) it gives the length of the payload, with the
  payload left over. When an element encoder raises, so does \<open>encodeSection\<close>.
\<close>

theorem encodeSection_frame:
  "(\<forall>payload. encodeVector items f = Inr payload \<longrightarrow>
      (\<exists>n. encodeLEB128U (lengthOf payload) = Inr n
           \<and> encodeSection id' items f = Inr (id' # n @ payload)
           \<and> (length payload < 2 ^ 31 \<longrightarrow>
                decodeLEB128U_ref (n @ payload) = Some (int (length payload), payload))))
   \<and> (\<forall>e. encodeVector items f = Inl e \<longrightarrow> encodeSection id' items f = Inl e)"
proof (intro conjI allI impI)
  fix payload
  assume v: "encodeVector items f = Inr payload"
  show "\<exists>n. encodeLEB128U (lengthOf payload) = Inr n
           \<and> encodeSection id' items f = Inr (id' # n @ payload)
           \<and> (length payload < 2 ^ 31 \<longrightarrow>
                decodeLEB128U_ref (n @ payload) = Some (int (length payload), payload))"
  proof (intro exI conjI impI)
    show "encodeLEB128U (lengthOf payload) = Inr (encodeLEB128U_loop [] (int (length payload)))"
      by (rule encodeLEB128U_lengthOf)
    show "encodeSection id' items f
        = Inr (id' # encodeLEB128U_loop [] (int (length payload)) @ payload)"
      using v by (rule encodeSection_payload)
    show "decodeLEB128U_ref (encodeLEB128U_loop [] (int (length payload)) @ payload)
        = Some (int (length payload), payload)" if "length payload < 2 ^ 31"
    proof (rule encodeLEB128U_loop_decode)
      show "0 \<le> int (length payload)" by simp
      from that show "int (length payload) < 2 ^ 31" by simp
    qed
  qed
next
  fix e
  assume "encodeVector items f = Inl e"
  then show "encodeSection id' items f = Inl e" by (rule encodeSection_error)
qed

text \<open>
  C6 on the two items 0 and 300 with \<open>encodeLEB128U\<close> as the element encoder, and on a
  fractional item, where the element encoder raises.
\<close>

theorem encodeSection_frame_witness:
  "encodeVector [Number 0, Number 300] encodeLEB128U = Inr [2, 0, 172, 2]
   \<and> length [2, 0, 172, 2 :: int] < 2 ^ 31
   \<and> encodeLEB128U (lengthOf [2, 0, 172, 2 :: int]) = Inr [4]
   \<and> encodeSection 3 [Number 0, Number 300] encodeLEB128U = Inr [3, 4, 2, 0, 172, 2]
   \<and> decodeLEB128U_ref [4, 2, 0, 172, 2] = Some (4, [2, 0, 172, 2])
   \<and> encodeVector [Finite (3 / 2)] encodeLEB128U = Inl (RangeError (Finite (3 / 2)))
   \<and> encodeSection 3 [Finite (3 / 2)] encodeLEB128U = Inl (RangeError (Finite (3 / 2)))"
proof -
  have v: "encodeVector [Number 0, Number 300] encodeLEB128U = Inr [2, 0, 172, 2]"
    by (simp add: encodeVector_def encodeLEB128U_lengthOf encodeLEB128U_Number
        encodeLEB128U_loop.simps bindE_Inr js_eval)
  have l: "length [2, 0, 172, 2 :: int] < 2 ^ 31" by simp
  have n: "encodeLEB128U (lengthOf [2, 0, 172, 2 :: int]) = Inr [4]"
    by (simp add: encodeLEB128U_lengthOf encodeLEB128U_loop_small)
  have "encodeLEB128U (Finite (3 / 2)) = Inl (RangeError (Finite (3 / 2)))"
    by (simp add: encodeLEB128U_def floor_rat_divide_numeral)
  then have e: "encodeVector [Finite (3 / 2)] encodeLEB128U = Inl (RangeError (Finite (3 / 2)))"
    by (simp add: encodeVector_def encodeLEB128U_lengthOf bindE_Inr bindE_Inl)
  from encodeSection_frame[of "[Number 0, Number 300]" encodeLEB128U 3] v l n
  have "encodeSection 3 [Number 0, Number 300] encodeLEB128U = Inr [3, 4, 2, 0, 172, 2]"
    and "decodeLEB128U_ref [4, 2, 0, 172, 2] = Some (4, [2, 0, 172, 2])"
    by auto
  moreover from encodeSection_frame[of "[Finite (3 / 2)]" encodeLEB128U 3] e
  have "encodeSection 3 [Finite (3 / 2)] encodeLEB128U = Inl (RangeError (Finite (3 / 2)))"
    by blast
  ultimately show ?thesis using v l n e by blast
qed

section \<open>Reference reader for instructions\<close>

text \<open>
  A reader for the instruction bytes, to state what it means for the markers of the
  conditionals to pair up. It is not part of the program. It reads one instruction off the
  front of a byte sequence: after the opcode \<open>0x04\<close> and the result type it reads
  instructions up to the \<open>0x05\<close> that ends the then-branch, then instructions up to the
  \<open>0x0b\<close> that ends the else-branch; a marker met where an instruction starts ends the
  innermost open branch, so the reader gets the tree back only if every \<open>0x05\<close> and
  \<open>0x0b\<close> sits at the depth of its own conditional. The fuel bounds the depth of the
  recursion.
\<close>

fun decodeValueType_ref :: "int \<Rightarrow> ValueType option" where
  "decodeValueType_ref b =
     (if b = 0x7f then Some (Num i32)
      else if b = 0x7e then Some (Num i64)
      else if b = 0x7d then Some (Num f32)
      else if b = 0x7c then Some (Num f64)
      else if b = 0x70 then Some (Ref funcRef)
      else if b = 0x6f then Some (Ref externRef)
      else None)"

definition decodeOperand_ref ::
  "(number \<Rightarrow> Instruction) \<Rightarrow> int list \<Rightarrow> (Instruction \<times> int list) option" where
  "decodeOperand_ref mk bs =
     (case decodeLEB128U_ref bs of
        None \<Rightarrow> None
      | Some (n, rest) \<Rightarrow> Some (mk (Number n), rest))"

definition decodePlain_ref :: "int \<Rightarrow> int list \<Rightarrow> (Instruction \<times> int list) option" where
  "decodePlain_ref op bs =
     (if op = 0x28 then
        (case decodeLEB128U_ref bs of
           None \<Rightarrow> None
         | Some (a, bs1) \<Rightarrow> decodeOperand_ref (I32Load (Number a)) bs1)
      else if op = 0x41 then
        (case decodeLEB128S_ref bs of
           None \<Rightarrow> None
         | Some (n, rest) \<Rightarrow> Some (I32Const (Number n), rest))
      else if op = 0x4a then Some (I32GtS, bs)
      else if op = 0x46 then Some (I32Eq, bs)
      else if op = 0x6a then Some (I32Add, bs)
      else if op = 0x6c then Some (I32Mul, bs)
      else if op = 0x6e then Some (I32DivU, bs)
      else if op = 0x0f then Some (Return, bs)
      else if op = 0x1a then Some (Drop, bs)
      else if op = 0x20 then decodeOperand_ref LocalGet bs
      else if op = 0x21 then decodeOperand_ref LocalSet bs
      else if op = 0x22 then decodeOperand_ref LocalTee bs
      else if op = 0x0d then decodeOperand_ref BrIf bs
      else if op = 0x10 then decodeOperand_ref Call bs
      else None)"

fun decodeInstruction_ref :: "nat \<Rightarrow> int list \<Rightarrow> (Instruction \<times> int list) option"
  and decodeBlock_ref :: "nat \<Rightarrow> int \<Rightarrow> int list \<Rightarrow> (Instruction list \<times> int list) option"
where
  "decodeInstruction_ref 0 bs = None"
| "decodeInstruction_ref (Suc k) [] = None"
| "decodeInstruction_ref (Suc k) (op # bs) =
     (if op = 0x04 then
        (case bs of
           [] \<Rightarrow> None
         | t # bs1 \<Rightarrow>
             (case decodeValueType_ref t of
                None \<Rightarrow> None
              | Some vt \<Rightarrow>
                  (case decodeBlock_ref k 0x05 bs1 of
                     None \<Rightarrow> None
                   | Some (thn, bs2) \<Rightarrow>
                       (case decodeBlock_ref k 0x0b bs2 of
                          None \<Rightarrow> None
                        | Some (els, bs3) \<Rightarrow> Some (If' vt thn els, bs3)))))
      else decodePlain_ref op bs)"
| "decodeBlock_ref 0 stop bs = None"
| "decodeBlock_ref (Suc k) stop [] = None"
| "decodeBlock_ref (Suc k) stop (b # bs) =
     (if b = stop then Some ([], bs)
      else (case decodeInstruction_ref k (b # bs) of
              None \<Rightarrow> None
            | Some (i, bs1) \<Rightarrow>
                (case decodeBlock_ref k stop bs1 of
                   None \<Rightarrow> None
                 | Some (is, bs2) \<Rightarrow> Some (i # is, bs2))))"

text \<open>
  The operands for which the LEB128 encoders are right: unsigned ones below \<open>2^31\<close>, the
  constant of \<open>i32.const\<close> in the signed 32-bit range.
\<close>

definition uint31 :: "number \<Rightarrow> bool" where
  "uint31 x = (isInteger x \<and> 0 \<le> integerOf x \<and> integerOf x < 2 ^ 31)"

definition sint32 :: "number \<Rightarrow> bool" where
  "sint32 x = (isInteger x \<and> - (2 ^ 31) \<le> integerOf x \<and> integerOf x < 2 ^ 31)"

fun operands_in_range :: "Instruction \<Rightarrow> bool" where
  "operands_in_range (I32Load a b) = (uint31 a \<and> uint31 b)"
| "operands_in_range (I32Const n) = sint32 n"
| "operands_in_range (LocalGet n) = uint31 n"
| "operands_in_range (LocalSet n) = uint31 n"
| "operands_in_range (LocalTee n) = uint31 n"
| "operands_in_range (BrIf n) = uint31 n"
| "operands_in_range (Call n) = uint31 n"
| "operands_in_range (If' t thn els) =
     (list_all operands_in_range thn \<and> list_all operands_in_range els)"
| "operands_in_range _ = True"

section \<open>Properties of the instruction encoder\<close>

lemma flatMap_Inr_concat:
  "map f xs = map Inr bss \<Longrightarrow> flatMap f xs = Inr (concat bss)"
proof (induction xs arbitrary: bss)
  case Nil
  then show ?case by simp
next
  case (Cons x xs)
  then obtain b bs where bss: "bss = b # bs" and b: "f x = Inr b" and bs: "map f xs = map Inr bs"
    by (cases bss) auto
  from Cons.IH[OF bs] b show ?case
    by (simp add: bss bindE_Inr)
qed

lemma flatMap_append:
  "flatMap f xs = Inr a \<Longrightarrow> flatMap f ys = Inr b \<Longrightarrow> flatMap f (xs @ ys) = Inr (a @ b)"
proof (induction xs arbitrary: a)
  case Nil
  then show ?case by simp
next
  case (Cons x xs)
  from Cons.prems(1) obtain c d where c: "f x = Inr c" and d: "flatMap f xs = Inr d"
    and a: "a = c @ d"
    by (auto simp: bindE_def split: sum.splits)
  from Cons.IH[OF d Cons.prems(2)] c show ?case
    by (simp add: a bindE_Inr)
qed

lemma encodeInstruction_If_bytes:
  "flatMap encodeInstruction thn = Inr a \<Longrightarrow> flatMap encodeInstruction els = Inr b \<Longrightarrow>
   encodeInstruction (If' t thn els) = Inr ([0x04, ValueType_value t] @ a @ [0x05] @ b @ [0x0b])"
  by (simp add: bindE_Inr)

lemma decode_ref_Suc:
  "(decodeInstruction_ref k bs = Some r \<longrightarrow> decodeInstruction_ref (Suc k) bs = Some r)
   \<and> (decodeBlock_ref k stop bs = Some q \<longrightarrow> decodeBlock_ref (Suc k) stop bs = Some q)"
proof (induction k arbitrary: bs r q stop)
  case 0
  show ?case by simp
next
  case (Suc k)
  have I: "decodeInstruction_ref (Suc k) bs = Some r" if "decodeInstruction_ref k bs = Some r"
    for bs r using Suc.IH that by blast
  have B: "decodeBlock_ref (Suc k) stop bs = Some q" if "decodeBlock_ref k stop bs = Some q"
    for bs q stop using Suc.IH that by blast
  show ?case
  proof (intro conjI impI)
    assume a: "decodeInstruction_ref (Suc k) bs = Some r"
    show "decodeInstruction_ref (Suc (Suc k)) bs = Some r"
    proof (cases bs)
      case Nil
      with a show ?thesis by simp
    next
      case (Cons op bs')
      show ?thesis
      proof (cases "op = 0x04")
        case False
        with a Cons show ?thesis by simp
      next
        case True
        with a Cons obtain t bs1 vt thn bs2 els bs3 where
          "bs' = t # bs1" "decodeValueType_ref t = Some vt"
          "decodeBlock_ref k 0x05 bs1 = Some (thn, bs2)"
          "decodeBlock_ref k 0x0b bs2 = Some (els, bs3)"
          "r = (If' vt thn els, bs3)"
          by (auto simp del: decodeValueType_ref.simps split: list.splits option.splits)
        with True Cons B[of "0x05" bs1 "(thn, bs2)"] B[of "0x0b" bs2 "(els, bs3)"]
        show ?thesis by (simp del: decodeValueType_ref.simps decodeBlock_ref.simps)
      qed
    qed
  next
    assume a: "decodeBlock_ref (Suc k) stop bs = Some q"
    show "decodeBlock_ref (Suc (Suc k)) stop bs = Some q"
    proof (cases bs)
      case Nil
      with a show ?thesis by simp
    next
      case (Cons b bs')
      show ?thesis
      proof (cases "b = stop")
        case True
        with a Cons show ?thesis by simp
      next
        case False
        with a Cons obtain i bs1 "is" bs2 where
          "decodeInstruction_ref k (b # bs') = Some (i, bs1)"
          "decodeBlock_ref k stop bs1 = Some (is, bs2)"
          "q = (i # is, bs2)"
          by (auto split: option.splits)
        with False Cons I[of "b # bs'" "(i, bs1)"] B[of stop bs1 "(is, bs2)"]
        show ?thesis by (simp del: decodeInstruction_ref.simps decodeBlock_ref.simps
            add: decodeBlock_ref.simps(3)[of "Suc k"])
      qed
    qed
  qed
qed

lemma decodeInstruction_ref_mono:
  assumes "decodeInstruction_ref k bs = Some r" and "k \<le> k'"
  shows "decodeInstruction_ref k' bs = Some r"
  using assms(2,1) by (induction rule: dec_induct) (simp_all add: decode_ref_Suc)

lemma decodeBlock_ref_mono:
  assumes "decodeBlock_ref k stop bs = Some q" and "k \<le> k'"
  shows "decodeBlock_ref k' stop bs = Some q"
  using assms(2,1) by (induction rule: dec_induct) (simp_all add: decode_ref_Suc)

definition reads_back :: "Instruction \<Rightarrow> bool" where
  "reads_back i =
     (\<exists>bs. encodeInstruction i = Inr bs \<and> bs \<noteq> [] \<and> hd bs \<noteq> 0x05 \<and> hd bs \<noteq> 0x0b
         \<and> (\<forall>rest. \<exists>k. decodeInstruction_ref k (bs @ rest) = Some (i, rest)))"

lemma uint31_encode:
  assumes "uint31 x"
  shows "\<exists>n. x = Number n \<and> encodeLEB128U x = Inr (encodeLEB128U_loop [] n)
           \<and> (\<forall>rest. decodeLEB128U_ref (encodeLEB128U_loop [] n @ rest) = Some (n, rest))"
proof (intro exI conjI allI)
  from assms have x: "x = Number (integerOf x)" and r: "0 \<le> integerOf x" "integerOf x < 2 ^ 31"
    by (simp_all add: uint31_def isInteger_imp_Number[symmetric])
  show "x = Number (integerOf x)" by (rule x)
  show "encodeLEB128U x = Inr (encodeLEB128U_loop [] (integerOf x))"
    by (subst x) (rule encodeLEB128U_Number)
  show "decodeLEB128U_ref (encodeLEB128U_loop [] (integerOf x) @ rest)
      = Some (integerOf x, rest)" for rest
    using r by (rule encodeLEB128U_loop_decode)
qed

lemma sint32_encode:
  assumes "sint32 x"
  shows "\<exists>n. x = Number n \<and> encodeLEB128S x = Inr (encodeLEB128S_loop [] n)
           \<and> (\<forall>rest. decodeLEB128S_ref (encodeLEB128S_loop [] n @ rest) = Some (n, rest))"
proof (intro exI conjI allI)
  from assms have x: "x = Number (integerOf x)"
    and r: "- (2 ^ 31) \<le> integerOf x" "integerOf x < 2 ^ 31"
    by (simp_all add: sint32_def isInteger_imp_Number[symmetric])
  show "x = Number (integerOf x)" by (rule x)
  have "encodeLEB128S (Number (integerOf x)) = Inr (encodeLEB128S_loop [] (integerOf x))"
    using r by (simp add: encodeLEB128S_Number ToInt32_id)
  then show "encodeLEB128S x = Inr (encodeLEB128S_loop [] (integerOf x))"
    using x by simp
  show "decodeLEB128S_ref (encodeLEB128S_loop [] (integerOf x) @ rest)
      = Some (integerOf x, rest)" for rest
    using r by (rule encodeLEB128S_loop_decode)
qed

lemma reads_back_plain:
  assumes "encodeInstruction i = Inr (op # bs)" "op \<noteq> 0x04" "op \<noteq> 0x05" "op \<noteq> 0x0b"
    and "\<And>rest. decodePlain_ref op (bs @ rest) = Some (i, rest)"
  shows "reads_back i"
  unfolding reads_back_def
proof (intro exI conjI allI)
  show "encodeInstruction i = Inr (op # bs)" by (rule assms(1))
  show "op # bs \<noteq> []" by simp
  show "hd (op # bs) \<noteq> 0x05" "hd (op # bs) \<noteq> 0x0b" using assms(3,4) by simp_all
  show "decodeInstruction_ref (Suc 0) ((op # bs) @ rest) = Some (i, rest)" for rest
    using assms(2,5) by simp
qed

lemma reads_back_operand:
  assumes "uint31 x" "op \<noteq> 0x04" "op \<noteq> 0x05" "op \<noteq> 0x0b"
    and "encodeInstruction (mk x) = bindE (encodeLEB128U x) (\<lambda>a. Inr (op # a))"
    and "\<And>bs. decodePlain_ref op bs = decodeOperand_ref mk bs"
  shows "reads_back (mk x)"
proof -
  from uint31_encode[OF assms(1)] obtain n where n: "x = Number n"
    "encodeLEB128U x = Inr (encodeLEB128U_loop [] n)"
    "\<And>rest. decodeLEB128U_ref (encodeLEB128U_loop [] n @ rest) = Some (n, rest)"
    by blast
  show ?thesis
  proof (rule reads_back_plain[of _ op "encodeLEB128U_loop [] n"])
    show "encodeInstruction (mk x) = Inr (op # encodeLEB128U_loop [] n)"
      by (simp add: assms(5) n(2) bindE_Inr)
    show "decodePlain_ref op (encodeLEB128U_loop [] n @ rest) = Some (mk x, rest)" for rest
      by (simp add: assms(6) decodeOperand_ref_def n(3) n(1))
  qed (rule assms)+
qed

lemma reads_back_LocalGet: "uint31 x \<Longrightarrow> reads_back (LocalGet x)"
  by (rule reads_back_operand[where op = "0x20"]) (simp_all add: decodePlain_ref_def)

lemma reads_back_LocalSet: "uint31 x \<Longrightarrow> reads_back (LocalSet x)"
  by (rule reads_back_operand[where op = "0x21"]) (simp_all add: decodePlain_ref_def)

lemma reads_back_LocalTee: "uint31 x \<Longrightarrow> reads_back (LocalTee x)"
  by (rule reads_back_operand[where op = "0x22"]) (simp_all add: decodePlain_ref_def)

lemma reads_back_BrIf: "uint31 x \<Longrightarrow> reads_back (BrIf x)"
  by (rule reads_back_operand[where op = "0x0d"]) (simp_all add: decodePlain_ref_def)

lemma reads_back_Call: "uint31 x \<Longrightarrow> reads_back (Call x)"
  by (rule reads_back_operand[where op = "0x10"]) (simp_all add: decodePlain_ref_def)

lemma reads_back_I32GtS: "reads_back I32GtS"
  by (rule reads_back_plain[where op = "0x4a" and bs = "[]"]) (simp_all add: decodePlain_ref_def)

lemma reads_back_I32Eq: "reads_back I32Eq"
  by (rule reads_back_plain[where op = "0x46" and bs = "[]"]) (simp_all add: decodePlain_ref_def)

lemma reads_back_I32Add: "reads_back I32Add"
  by (rule reads_back_plain[where op = "0x6a" and bs = "[]"]) (simp_all add: decodePlain_ref_def)

lemma reads_back_I32Mul: "reads_back I32Mul"
  by (rule reads_back_plain[where op = "0x6c" and bs = "[]"]) (simp_all add: decodePlain_ref_def)

lemma reads_back_I32DivU: "reads_back I32DivU"
  by (rule reads_back_plain[where op = "0x6e" and bs = "[]"]) (simp_all add: decodePlain_ref_def)

lemma reads_back_Return: "reads_back Return"
  by (rule reads_back_plain[where op = "0x0f" and bs = "[]"]) (simp_all add: decodePlain_ref_def)

lemma reads_back_Drop: "reads_back Drop"
  by (rule reads_back_plain[where op = "0x1a" and bs = "[]"]) (simp_all add: decodePlain_ref_def)

lemma reads_back_I32Const: "sint32 x \<Longrightarrow> reads_back (I32Const x)"
proof -
  assume "sint32 x"
  from sint32_encode[OF this] obtain n where n: "x = Number n"
    "encodeLEB128S x = Inr (encodeLEB128S_loop [] n)"
    "\<And>rest. decodeLEB128S_ref (encodeLEB128S_loop [] n @ rest) = Some (n, rest)"
    by blast
  show ?thesis
  proof (rule reads_back_plain[of _ "0x41" "encodeLEB128S_loop [] n"])
    show "encodeInstruction (I32Const x) = Inr (0x41 # encodeLEB128S_loop [] n)"
      by (simp add: n(2) bindE_Inr)
    show "decodePlain_ref 0x41 (encodeLEB128S_loop [] n @ rest) = Some (I32Const x, rest)"
      for rest
      by (simp add: decodePlain_ref_def n(3) n(1))
  qed simp_all
qed

lemma reads_back_I32Load: "uint31 a \<Longrightarrow> uint31 b \<Longrightarrow> reads_back (I32Load a b)"
proof -
  assume a: "uint31 a" and b: "uint31 b"
  from uint31_encode[OF a] obtain n where n: "a = Number n"
    "encodeLEB128U a = Inr (encodeLEB128U_loop [] n)"
    "\<And>rest. decodeLEB128U_ref (encodeLEB128U_loop [] n @ rest) = Some (n, rest)"
    by blast
  from uint31_encode[OF b] obtain m where m: "b = Number m"
    "encodeLEB128U b = Inr (encodeLEB128U_loop [] m)"
    "\<And>rest. decodeLEB128U_ref (encodeLEB128U_loop [] m @ rest) = Some (m, rest)"
    by blast
  show ?thesis
  proof (rule reads_back_plain[of _ "0x28" "encodeLEB128U_loop [] n @ encodeLEB128U_loop [] m"])
    show "encodeInstruction (I32Load a b)
        = Inr (0x28 # encodeLEB128U_loop [] n @ encodeLEB128U_loop [] m)"
      by (simp add: n(2) m(2) bindE_Inr)
    show "decodePlain_ref 0x28 ((encodeLEB128U_loop [] n @ encodeLEB128U_loop [] m) @ rest)
        = Some (I32Load a b, rest)" for rest
      by (simp add: decodePlain_ref_def decodeOperand_ref_def n(3) m(3) n(1) m(1))
  qed simp_all
qed

lemma decodeValueType_ref_value: "decodeValueType_ref (ValueType_value t) = Some t"
proof (cases t)
  case (Ref r)
  then show ?thesis by (cases r) simp_all
next
  case (Num n)
  then show ?thesis by (cases n) simp_all
qed

lemma block_reads_back:
  assumes "\<And>i. i \<in> set is \<Longrightarrow> reads_back i" and "stop = 0x05 \<or> stop = 0x0b"
  shows "\<exists>bs. flatMap encodeInstruction is = Inr bs
           \<and> (\<forall>rest. \<exists>k. decodeBlock_ref k stop (bs @ stop # rest) = Some (is, rest))"
  using assms(1)
proof (induction "is")
  case Nil
  have "decodeBlock_ref (Suc 0) stop ([] @ stop # rest) = Some ([], rest)" for rest
    by simp
  then have "\<forall>rest. \<exists>k. decodeBlock_ref k stop ([] @ stop # rest) = Some ([], rest)"
    by blast
  then show ?case by simp
next
  case (Cons i "is")
  from Cons.prems have "reads_back i" by simp
  then obtain op b1 where enc: "encodeInstruction i = Inr (op # b1)"
    and op: "op \<noteq> 0x05" "op \<noteq> 0x0b"
    and dec: "\<And>rest. \<exists>k. decodeInstruction_ref k ((op # b1) @ rest) = Some (i, rest)"
    unfolding reads_back_def by (metis list.exhaust_sel)
  from Cons.IH Cons.prems obtain b2 where encs: "flatMap encodeInstruction is = Inr b2"
    and decs: "\<And>rest. \<exists>k. decodeBlock_ref k stop (b2 @ stop # rest) = Some (is, rest)"
    by auto
  have "\<exists>k. decodeBlock_ref k stop (((op # b1) @ b2) @ stop # rest) = Some (i # is, rest)"
    for rest
  proof -
    from dec[of "b2 @ stop # rest"] obtain k1 where
      "decodeInstruction_ref k1 ((op # b1) @ b2 @ stop # rest) = Some (i, b2 @ stop # rest)"
      by blast
    then have 1: "decodeInstruction_ref (max k1 k2) (op # b1 @ b2 @ stop # rest)
        = Some (i, b2 @ stop # rest)" for k2
      using decodeInstruction_ref_mono[of k1 _ _ "max k1 k2"] by simp
    from decs[of rest] obtain k2 where
      "decodeBlock_ref k2 stop (b2 @ stop # rest) = Some (is, rest)"
      by blast
    then have 2: "decodeBlock_ref (max k1 k2) stop (b2 @ stop # rest) = Some (is, rest)"
      using decodeBlock_ref_mono[of k2 _ _ _ "max k1 k2"] by simp
    from op assms(2) have "op \<noteq> stop" by auto
    with 1[of k2] 2 have "decodeBlock_ref (Suc (max k1 k2)) stop
        (((op # b1) @ b2) @ stop # rest) = Some (i # is, rest)"
      by (simp del: decodeInstruction_ref.simps)
    then show ?thesis by blast
  qed
  moreover have "flatMap encodeInstruction (i # is) = Inr ((op # b1) @ b2)"
    by (simp add: enc encs bindE_Inr)
  ultimately show ?case by blast
qed

lemma reads_back_If:
  assumes "\<And>i. i \<in> set thn \<Longrightarrow> reads_back i" "\<And>i. i \<in> set els \<Longrightarrow> reads_back i"
  shows "reads_back (If' t thn els)"
proof -
  from block_reads_back[of thn "0x05"] assms(1) obtain a where
    a: "flatMap encodeInstruction thn = Inr a"
    and da: "\<And>rest. \<exists>k. decodeBlock_ref k 0x05 (a @ 0x05 # rest) = Some (thn, rest)"
    by auto
  from block_reads_back[of els "0x0b"] assms(2) obtain b where
    b: "flatMap encodeInstruction els = Inr b"
    and db: "\<And>rest. \<exists>k. decodeBlock_ref k 0x0b (b @ 0x0b # rest) = Some (els, rest)"
    by auto
  have enc: "encodeInstruction (If' t thn els)
      = Inr (0x04 # ValueType_value t # a @ 0x05 # b @ [0x0b])"
    by (simp add: a b bindE_Inr)
  have "\<exists>k. decodeInstruction_ref k ((0x04 # ValueType_value t # a @ 0x05 # b @ [0x0b]) @ rest)
      = Some (If' t thn els, rest)" for rest
  proof -
    from da[of "b @ 0x0b # rest"] obtain k1 where
      "decodeBlock_ref k1 0x05 (a @ 0x05 # b @ 0x0b # rest) = Some (thn, b @ 0x0b # rest)"
      by blast
    then have 1: "decodeBlock_ref (max k1 k2) 0x05 (a @ 0x05 # b @ 0x0b # rest)
        = Some (thn, b @ 0x0b # rest)" for k2
      using decodeBlock_ref_mono[of k1 _ _ _ "max k1 k2"] by simp
    from db[of rest] obtain k2 where
      "decodeBlock_ref k2 0x0b (b @ 0x0b # rest) = Some (els, rest)"
      by blast
    then have 2: "decodeBlock_ref (max k1 k2) 0x0b (b @ 0x0b # rest) = Some (els, rest)"
      using decodeBlock_ref_mono[of k2 _ _ _ "max k1 k2"] by simp
    from 1[of k2] 2 have "decodeInstruction_ref (Suc (max k1 k2))
        ((0x04 # ValueType_value t # a @ 0x05 # b @ [0x0b]) @ rest) = Some (If' t thn els, rest)"
      by (simp add: decodeValueType_ref_value del: decodeValueType_ref.simps)
    then show ?thesis by blast
  qed
  with enc show ?thesis unfolding reads_back_def by simp
qed

lemma operands_in_range_reads_back: "operands_in_range i \<Longrightarrow> reads_back i"
proof (induction i)
  case (If' t thn els)
  then show ?case
    by (intro reads_back_If) (simp_all add: list_all_iff)
qed (simp_all add: reads_back_I32Load reads_back_I32Const reads_back_I32GtS reads_back_I32Eq
    reads_back_I32Add reads_back_I32Mul reads_back_I32DivU reads_back_LocalGet
    reads_back_LocalSet reads_back_LocalTee reads_back_Drop reads_back_BrIf reads_back_Return
    reads_back_Call)

lemmas encode_eval =
  encodeTypeSection_def encodeFuncSection_def encodeMemorySection_def encodeExportSection_def
  encodeCodeSection_def encodeSection_def encodeVector_def encodeFuncType_def encodeLimits_def
  encodeExport_def encodeFuncBody_def TextEncoder_encode_def
  encodeLEB128U_lengthOf encodeLEB128U_Number encodeLEB128S_Number
  encodeLEB128U_loop.simps encodeLEB128S_loop.simps js_eval bindE_Inr Let_def

text \<open>
  C7. For every conditional, however nested: when the instructions of the two branches
  encode to the byte sequences \<open>as\<close> and \<open>bs\<close> (one per instruction, in order),
  \<open>encodeInstruction\<close> returns the \<open>If\<close> opcode, the result type, the concatenation of
  \<open>as\<close>, the byte \<open>0x05\<close>, the concatenation of \<open>bs\<close> and the byte \<open>0x0b\<close>. And the
  markers pair up at every depth: when the operands are in range the encoding succeeds
  and the reference reader, whatever bytes follow, reads back the very tree that was
  encoded.
\<close>

theorem encodeInstruction_If:
  "(\<forall>as bs. map encodeInstruction thn = map Inr as \<and> map encodeInstruction els = map Inr bs \<longrightarrow>
      encodeInstruction (If' t thn els)
        = Inr ([InstrType_value T_If, ValueType_value t]
               @ concat as @ [0x05] @ concat bs @ [0x0b]))
   \<and> (operands_in_range (If' t thn els) \<longrightarrow>
        (\<exists>bytes. encodeInstruction (If' t thn els) = Inr bytes
           \<and> (\<forall>rest. \<exists>k. decodeInstruction_ref k (bytes @ rest) = Some (If' t thn els, rest))))"
proof (intro conjI allI impI)
  fix as bs
  assume "map encodeInstruction thn = map Inr as \<and> map encodeInstruction els = map Inr bs"
  then have "flatMap encodeInstruction thn = Inr (concat as)"
    and "flatMap encodeInstruction els = Inr (concat bs)"
    by (simp_all add: flatMap_Inr_concat)
  then show "encodeInstruction (If' t thn els)
        = Inr ([InstrType_value T_If, ValueType_value t]
               @ concat as @ [0x05] @ concat bs @ [0x0b])"
    by (simp add: bindE_Inr)
next
  assume "operands_in_range (If' t thn els)"
  then have "reads_back (If' t thn els)" by (rule operands_in_range_reads_back)
  then show "\<exists>bytes. encodeInstruction (If' t thn els) = Inr bytes
           \<and> (\<forall>rest. \<exists>k. decodeInstruction_ref k (bytes @ rest) = Some (If' t thn els, rest))"
    unfolding reads_back_def by blast
qed

text \<open>
  C7 on a conditional nested in the then-branch of another, with operands 5 and 11 that
  are the bytes of the markers.
\<close>

theorem encodeInstruction_If_witness:
  "map encodeInstruction
       [LocalGet (Number 0), If' (Num i32) [I32Const (Number (- 1))] [LocalGet (Number 5)]]
     = map Inr [[0x20, 0], [0x04, 0x7f, 0x41, 0x7f, 0x05, 0x20, 5, 0x0b]]
   \<and> map encodeInstruction [LocalGet (Number 11)] = map Inr [[0x20, 11]]
   \<and> encodeInstruction (If' (Num i32)
       [LocalGet (Number 0), If' (Num i32) [I32Const (Number (- 1))] [LocalGet (Number 5)]]
       [LocalGet (Number 11)])
     = Inr [0x04, 0x7f, 0x20, 0, 0x04, 0x7f, 0x41, 0x7f, 0x05, 0x20, 5, 0x0b,
            0x05, 0x20, 11, 0x0b]
   \<and> operands_in_range (If' (Num i32)
       [LocalGet (Number 0), If' (Num i32) [I32Const (Number (- 1))] [LocalGet (Number 5)]]
       [LocalGet (Number 11)])
   \<and> (\<exists>k. decodeInstruction_ref k
         [0x04, 0x7f, 0x20, 0, 0x04, 0x7f, 0x41, 0x7f, 0x05, 0x20, 5, 0x0b, 0x05, 0x20, 11, 0x0b]
       = Some (If' (Num i32)
           [LocalGet (Number 0), If' (Num i32) [I32Const (Number (- 1))] [LocalGet (Number 5)]]
           [LocalGet (Number 11)], []))"
proof -
  let ?thn = "[LocalGet (Number 0), If' (Num i32) [I32Const (Number (- 1))] [LocalGet (Number 5)]]"
  let ?els = "[LocalGet (Number 11)]"
  have thn: "map encodeInstruction ?thn
      = map Inr [[0x20, 0], [0x04, 0x7f, 0x41, 0x7f, 0x05, 0x20, 5, 0x0b]]"
    by (simp add: encode_eval)
  have els: "map encodeInstruction ?els = map Inr [[0x20, 11]]"
    by (simp add: encode_eval)
  have ok: "operands_in_range (If' (Num i32) ?thn ?els)"
    by (simp add: uint31_def sint32_def isInteger_Number integerOf_Number)
  let ?bytes = "[0x04, 0x7f, 0x20, 0, 0x04, 0x7f, 0x41, 0x7f, 0x05, 0x20, 5, 0x0b,
      0x05, 0x20, 11, 0x0b] :: int list"
  note If = encodeInstruction_If[of ?thn ?els "Num i32"]
  from If thn els have "encodeInstruction (If' (Num i32) ?thn ?els)
      = Inr ([InstrType_value T_If, ValueType_value (Num i32)]
             @ concat [[0x20, 0], [0x04, 0x7f, 0x41, 0x7f, 0x05, 0x20, 5, 0x0b]] @ [0x05]
             @ concat [[0x20, 11]] @ [0x0b])"
    by blast
  then have enc: "encodeInstruction (If' (Num i32) ?thn ?els) = Inr ?bytes"
    by (simp del: encodeInstruction.simps)
  from If ok obtain bytes where "encodeInstruction (If' (Num i32) ?thn ?els) = Inr bytes"
    and "\<forall>rest. \<exists>k. decodeInstruction_ref k (bytes @ rest)
           = Some (If' (Num i32) ?thn ?els, rest)"
    by blast
  with enc have "\<forall>rest. \<exists>k. decodeInstruction_ref k (?bytes @ rest)
      = Some (If' (Num i32) ?thn ?els, rest)"
    by (simp del: encodeInstruction.simps decodeInstruction_ref.simps)
  then have "\<exists>k. decodeInstruction_ref k (?bytes @ [])
      = Some (If' (Num i32) ?thn ?els, [])"
    by (rule spec)
  then have dec: "\<exists>k. decodeInstruction_ref k ?bytes = Some (If' (Num i32) ?thn ?els, [])"
    by (simp del: decodeInstruction_ref.simps)
  from thn els enc ok dec show ?thesis
    by (intro conjI)
qed

section \<open>Properties of the module\<close>

lemma decodeLEB128U_ref_length:
  "decodeLEB128U_ref bs = Some (v, rest) \<Longrightarrow> length rest < length bs"
proof (induction bs arbitrary: v rest)
  case Nil
  then show ?case by simp
next
  case (Cons b bs)
  then show ?case
    by (fastforce split: if_splits option.splits)
qed

text \<open>
  A reader for the sections of a module body, not part of the program: each section is
  an id byte, the length of the payload as an unsigned LEB128 integer, and the payload.
\<close>

function sections_ref :: "int list \<Rightarrow> (int \<times> int list) list option" where
  "sections_ref [] = Some []"
| "sections_ref (id' # bs) =
     (case decodeLEB128U_ref bs of
        None \<Rightarrow> None
      | Some (n, rest) \<Rightarrow>
          if int (length rest) < n then None
          else (case sections_ref (drop (nat n) rest) of
                  None \<Rightarrow> None
                | Some ss \<Rightarrow> Some ((id', take (nat n) rest) # ss)))"
  by pat_completeness auto
termination
proof (relation "measure length")
  show "wf (measure length)" by simp
next
  fix id' :: int and bs x2 x y
  assume "decodeLEB128U_ref bs = Some x2" and "(x, y) = x2"
  then have "length y < length bs"
    using decodeLEB128U_ref_length[of bs x y] by simp
  then show "(drop (nat x) y, id' # bs) \<in> measure length"
    by simp
qed

text \<open>
  The description that \<open>encodeModule\<close> writes out in its body, part by part.
\<close>

definition module_types :: "FuncType list" where
  "module_types =
     [\<lparr>paramTypes = [Num i32, Num i32, Num i32, Num i32], returnTypes = [Num i32]\<rparr>]"

definition module_funcs :: "number list" where
  "module_funcs = [Number 0]"

definition module_memories :: "Limits list" where
  "module_memories = [\<lparr>limits_min = Number 1, limits_max = None\<rparr>]"

definition module_exports :: "Export list" where
  "module_exports =
     [\<lparr>export_name = ''binarySearch'', export_type = Function, export_index = Number 0\<rparr>,
      \<lparr>export_name = ''memory'', export_type = Memory, export_index = Number 0\<rparr>]"

definition module_code :: "FuncBody list" where
  "module_code =
     [\<lparr>locals = [(Number 2, Num i32)],
         instructions =
          [LocalGet (Number 2),
           LocalGet (Number 3),
           I32Add,
           I32Const (Number 2),
           I32DivU,
           LocalTee (Number 4),
           LocalGet (Number 4),
           LocalGet (Number 0),
           I32Add,
           I32Const (Number 4),
           I32Mul,
           I32Load (Number 0) (Number 0),
           LocalTee (Number 5),
           LocalGet (Number 1),
           I32Eq,
           BrIf (Number 0),
           Drop,
           I32Const (Number (- 1)),
           LocalGet (Number 4),
           LocalGet (Number 2),
           I32Eq,
           BrIf (Number 0),
           Drop,
           LocalGet (Number 1),
           LocalGet (Number 5),
           I32GtS,
           If' (Num i32)
            [LocalGet (Number 0),
             LocalGet (Number 1),
             LocalGet (Number 4),
             LocalGet (Number 3),
             Call (Number 0)]
            [LocalGet (Number 0),
             LocalGet (Number 1),
             LocalGet (Number 2),
             LocalGet (Number 4),
             Call (Number 0)]]\<rparr>]"

lemma encodeModule_description:
  "encodeModule =
     bindE (encodeTypeSection module_types) (\<lambda>types.
     bindE (encodeFuncSection module_funcs) (\<lambda>funcs.
     bindE (encodeMemorySection module_memories) (\<lambda>memories.
     bindE (encodeExportSection module_exports) (\<lambda>exports.
     bindE (encodeCodeSection module_code) (\<lambda>code.
     Inr (Uint8Array (encodePreamble @ types @ funcs @ memories @ exports @ code)))))))"
  unfolding encodeModule_def module_types_def module_funcs_def module_memories_def
    module_exports_def module_code_def ..

lemma module_types_bytes:
  "encodeTypeSection module_types = Inr [1, 9, 1, 96, 4, 127, 127, 127, 127, 1, 127]"
  by (simp add: module_types_def encode_eval)

lemma module_funcs_bytes: "encodeFuncSection module_funcs = Inr [3, 2, 1, 0]"
  by (simp add: module_funcs_def encode_eval)

lemma module_memories_bytes: "encodeMemorySection module_memories = Inr [5, 3, 1, 0, 1]"
  by (simp add: module_memories_def encode_eval)

lemma module_exports_bytes:
  "encodeExportSection module_exports
   = Inr [7, 25, 2, 12, 98, 105, 110, 97, 114, 121, 83, 101, 97, 114, 99, 104, 0, 0,
          6, 109, 101, 109, 111, 114, 121, 2, 0]"
  by (simp add: module_exports_def encode_eval)

lemma module_code_bytes:
  "encodeCodeSection module_code
   = Inr [10, 74, 1, 72, 1, 2, 127, 32, 2, 32, 3, 106, 65, 2, 110, 34, 4,
      32, 4, 32, 0, 106, 65, 4, 108, 40, 0, 0, 34, 5, 32, 1, 70, 13, 0, 26,
      65, 127, 32, 4, 32, 2, 70, 13, 0, 26, 32, 1, 32, 5, 74, 4, 127, 32, 0,
      32, 1, 32, 4, 32, 3, 16, 0, 5, 32, 0, 32, 1, 32, 2, 32, 4, 16, 0, 11,
      11]"
  by (simp add: module_code_def encode_eval)

text \<open>
  The sequence \<open>encodeModule\<close> returns, element by element.
\<close>

lemma encodeModule_bytes:
  "encodeModule = Inr
     [0, 97, 115, 109, 1, 0, 0, 0,
      1, 9, 1, 96, 4, 127, 127, 127, 127, 1, 127,
      3, 2, 1, 0,
      5, 3, 1, 0, 1,
      7, 25, 2, 12, 98, 105, 110, 97, 114, 121, 83, 101, 97, 114, 99, 104, 0, 0,
      6, 109, 101, 109, 111, 114, 121, 2, 0,
      10, 74, 1, 72, 1, 2, 127, 32, 2, 32, 3, 106, 65, 2, 110, 34, 4,
      32, 4, 32, 0, 106, 65, 4, 108, 40, 0, 0, 34, 5, 32, 1, 70, 13, 0, 26,
      65, 127, 32, 4, 32, 2, 70, 13, 0, 26, 32, 1, 32, 5, 74, 4, 127, 32, 0,
      32, 1, 32, 4, 32, 3, 16, 0, 5, 32, 0, 32, 1, 32, 2, 32, 4, 16, 0, 11,
      11]"
  by (simp add: encodeModule_description module_types_bytes module_funcs_bytes
      module_memories_bytes module_exports_bytes module_code_bytes bindE_Inr encodePreamble_def
      Uint8Array_def)

text \<open>
  C8. The byte sequence \<open>encodeModule\<close> returns begins with the eight bytes of the
  preamble (the magic \<open>00 61 73 6d\<close>, then the version \<open>01 00 00 00\<close>); the bytes after
  them are the encodings of the type, function, memory, export and code sections, in this
  order, and read as sections they are five sections with the ids 1, 3, 5, 7 and 10.
\<close>

theorem encodeModule_layout:
  "\<exists>out types funcs memories exports code tp fp mp ep cp.
     encodeModule = Inr out
     \<and> take 8 out = [0x00, 0x61, 0x73, 0x6d, 0x01, 0x00, 0x00, 0x00]
     \<and> map uint (take 8 out) = encodePreamble
     \<and> map uint (drop 8 out) = types @ funcs @ memories @ exports @ code
     \<and> encodeTypeSection module_types = Inr types
     \<and> encodeFuncSection module_funcs = Inr funcs
     \<and> encodeMemorySection module_memories = Inr memories
     \<and> encodeExportSection module_exports = Inr exports
     \<and> encodeCodeSection module_code = Inr code
     \<and> encodeModule = Inr (Uint8Array (encodePreamble @ types @ funcs @ memories @ exports @ code))
     \<and> encodePreamble = [0x00, 0x61, 0x73, 0x6d] @ [0x01, 0x00, 0x00, 0x00]
     \<and> list_all (\<lambda>b. 0 \<le> b \<and> b < 256) (encodePreamble @ types @ funcs @ memories @ exports @ code)
     \<and> sections_ref (map uint (drop 8 out))
         = Some [(1, tp), (3, fp), (5, mp), (7, ep), (10, cp)]
     \<and> sections_ref (types @ funcs @ memories @ exports @ code)
         = Some [(1, tp), (3, fp), (5, mp), (7, ep), (10, cp)]"
proof (intro exI conjI)
  show "encodeModule = Inr
     [0, 97, 115, 109, 1, 0, 0, 0,
      1, 9, 1, 96, 4, 127, 127, 127, 127, 1, 127,
      3, 2, 1, 0,
      5, 3, 1, 0, 1,
      7, 25, 2, 12, 98, 105, 110, 97, 114, 121, 83, 101, 97, 114, 99, 104, 0, 0,
      6, 109, 101, 109, 111, 114, 121, 2, 0,
      10, 74, 1, 72, 1, 2, 127, 32, 2, 32, 3, 106, 65, 2, 110, 34, 4,
      32, 4, 32, 0, 106, 65, 4, 108, 40, 0, 0, 34, 5, 32, 1, 70, 13, 0, 26,
      65, 127, 32, 4, 32, 2, 70, 13, 0, 26, 32, 1, 32, 5, 74, 4, 127, 32, 0,
      32, 1, 32, 4, 32, 3, 16, 0, 5, 32, 0, 32, 1, 32, 2, 32, 4, 16, 0, 11,
      11]"
    by (rule encodeModule_bytes)
  show "encodeTypeSection module_types = Inr [1, 9, 1, 96, 4, 127, 127, 127, 127, 1, 127]"
    by (rule module_types_bytes)
  show "encodeFuncSection module_funcs = Inr [3, 2, 1, 0]"
    by (rule module_funcs_bytes)
  show "encodeMemorySection module_memories = Inr [5, 3, 1, 0, 1]"
    by (rule module_memories_bytes)
  show "encodeExportSection module_exports
   = Inr [7, 25, 2, 12, 98, 105, 110, 97, 114, 121, 83, 101, 97, 114, 99, 104, 0, 0,
          6, 109, 101, 109, 111, 114, 121, 2, 0]"
    by (rule module_exports_bytes)
  show "encodeCodeSection module_code
   = Inr [10, 74, 1, 72, 1, 2, 127, 32, 2, 32, 3, 106, 65, 2, 110, 34, 4,
      32, 4, 32, 0, 106, 65, 4, 108, 40, 0, 0, 34, 5, 32, 1, 70, 13, 0, 26,
      65, 127, 32, 4, 32, 2, 70, 13, 0, 26, 32, 1, 32, 5, 74, 4, 127, 32, 0,
      32, 1, 32, 4, 32, 3, 16, 0, 5, 32, 0, 32, 1, 32, 2, 32, 4, 16, 0, 11,
      11]"
    by (rule module_code_bytes)
qed (simp_all add: encodeModule_bytes encodePreamble_def Uint8Array_def)

text \<open>
  C10. \<open>encodeModule\<close> has no argument and returns one fixed sequence of 131 bytes, the
  one written out below. After the preamble it holds five sections whose payloads are the
  vectors of: the one function type with four \<open>i32\<close> parameters and one \<open>i32\<close> result;
  the one function entry 0; the one memory with minimum 1 and no maximum; the exports
  \<open>binarySearch\<close> (function 0) and \<open>memory\<close> (memory 0); and the one function body.
\<close>

theorem encodeModule_constant:
  "encodeModule = Inr
     [0, 97, 115, 109, 1, 0, 0, 0,
      1, 9, 1, 96, 4, 127, 127, 127, 127, 1, 127,
      3, 2, 1, 0,
      5, 3, 1, 0, 1,
      7, 25, 2, 12, 98, 105, 110, 97, 114, 121, 83, 101, 97, 114, 99, 104, 0, 0,
      6, 109, 101, 109, 111, 114, 121, 2, 0,
      10, 74, 1, 72, 1, 2, 127, 32, 2, 32, 3, 106, 65, 2, 110, 34, 4,
      32, 4, 32, 0, 106, 65, 4, 108, 40, 0, 0, 34, 5, 32, 1, 70, 13, 0, 26,
      65, 127, 32, 4, 32, 2, 70, 13, 0, 26, 32, 1, 32, 5, 74, 4, 127, 32, 0,
      32, 1, 32, 4, 32, 3, 16, 0, 5, 32, 0, 32, 1, 32, 2, 32, 4, 16, 0, 11,
      11]
   \<and> (\<exists>out bytes tp fp mp ep cp.
     encodeModule = Inr out
     \<and> length out = 131
     \<and> map uint out = bytes
     \<and> bytes =
     [0, 97, 115, 109, 1, 0, 0, 0,
      1, 9, 1, 96, 4, 127, 127, 127, 127, 1, 127,
      3, 2, 1, 0,
      5, 3, 1, 0, 1,
      7, 25, 2, 12, 98, 105, 110, 97, 114, 121, 83, 101, 97, 114, 99, 104, 0, 0,
      6, 109, 101, 109, 111, 114, 121, 2, 0,
      10, 74, 1, 72, 1, 2, 127, 32, 2, 32, 3, 106, 65, 2, 110, 34, 4,
      32, 4, 32, 0, 106, 65, 4, 108, 40, 0, 0, 34, 5, 32, 1, 70, 13, 0, 26,
      65, 127, 32, 4, 32, 2, 70, 13, 0, 26, 32, 1, 32, 5, 74, 4, 127, 32, 0,
      32, 1, 32, 4, 32, 3, 16, 0, 5, 32, 0, 32, 1, 32, 2, 32, 4, 16, 0, 11,
      11]
     \<and> encodeModule = Inr (Uint8Array bytes)
     \<and> list_all (\<lambda>b. 0 \<le> b \<and> b < 256) bytes
     \<and> sections_ref (drop 8 bytes) = Some [(1, tp), (3, fp), (5, mp), (7, ep), (10, cp)]
     \<and> encodeVector
           [\<lparr>paramTypes = [Num i32, Num i32, Num i32, Num i32], returnTypes = [Num i32]\<rparr>]
           encodeFuncType = Inr tp
     \<and> encodeVector [Number 0] encodeLEB128U = Inr fp
     \<and> encodeVector [\<lparr>limits_min = Number 1, limits_max = None\<rparr>] encodeLimits = Inr mp
     \<and> encodeVector
           [\<lparr>export_name = ''binarySearch'', export_type = Function, export_index = Number 0\<rparr>,
            \<lparr>export_name = ''memory'', export_type = Memory, export_index = Number 0\<rparr>]
           encodeExport = Inr ep
     \<and> encodeVector module_code encodeFuncBody = Inr cp
     \<and> length module_code = 1)"
proof (intro conjI exI)
  show "encodeModule = Inr
     [0, 97, 115, 109, 1, 0, 0, 0,
      1, 9, 1, 96, 4, 127, 127, 127, 127, 1, 127,
      3, 2, 1, 0,
      5, 3, 1, 0, 1,
      7, 25, 2, 12, 98, 105, 110, 97, 114, 121, 83, 101, 97, 114, 99, 104, 0, 0,
      6, 109, 101, 109, 111, 114, 121, 2, 0,
      10, 74, 1, 72, 1, 2, 127, 32, 2, 32, 3, 106, 65, 2, 110, 34, 4,
      32, 4, 32, 0, 106, 65, 4, 108, 40, 0, 0, 34, 5, 32, 1, 70, 13, 0, 26,
      65, 127, 32, 4, 32, 2, 70, 13, 0, 26, 32, 1, 32, 5, 74, 4, 127, 32, 0,
      32, 1, 32, 4, 32, 3, 16, 0, 5, 32, 0, 32, 1, 32, 2, 32, 4, 16, 0, 11,
      11]"
    by (rule encodeModule_bytes)
  show "encodeModule = Inr
     [0, 97, 115, 109, 1, 0, 0, 0,
      1, 9, 1, 96, 4, 127, 127, 127, 127, 1, 127,
      3, 2, 1, 0,
      5, 3, 1, 0, 1,
      7, 25, 2, 12, 98, 105, 110, 97, 114, 121, 83, 101, 97, 114, 99, 104, 0, 0,
      6, 109, 101, 109, 111, 114, 121, 2, 0,
      10, 74, 1, 72, 1, 2, 127, 32, 2, 32, 3, 106, 65, 2, 110, 34, 4,
      32, 4, 32, 0, 106, 65, 4, 108, 40, 0, 0, 34, 5, 32, 1, 70, 13, 0, 26,
      65, 127, 32, 4, 32, 2, 70, 13, 0, 26, 32, 1, 32, 5, 74, 4, 127, 32, 0,
      32, 1, 32, 4, 32, 3, 16, 0, 5, 32, 0, 32, 1, 32, 2, 32, 4, 16, 0, 11,
      11]"
    by (rule encodeModule_bytes)
  show "map uint
     ([0, 97, 115, 109, 1, 0, 0, 0,
      1, 9, 1, 96, 4, 127, 127, 127, 127, 1, 127,
      3, 2, 1, 0,
      5, 3, 1, 0, 1,
      7, 25, 2, 12, 98, 105, 110, 97, 114, 121, 83, 101, 97, 114, 99, 104, 0, 0,
      6, 109, 101, 109, 111, 114, 121, 2, 0,
      10, 74, 1, 72, 1, 2, 127, 32, 2, 32, 3, 106, 65, 2, 110, 34, 4,
      32, 4, 32, 0, 106, 65, 4, 108, 40, 0, 0, 34, 5, 32, 1, 70, 13, 0, 26,
      65, 127, 32, 4, 32, 2, 70, 13, 0, 26, 32, 1, 32, 5, 74, 4, 127, 32, 0,
      32, 1, 32, 4, 32, 3, 16, 0, 5, 32, 0, 32, 1, 32, 2, 32, 4, 16, 0, 11,
      11] :: 8 word list)
   = [0, 97, 115, 109, 1, 0, 0, 0,
      1, 9, 1, 96, 4, 127, 127, 127, 127, 1, 127,
      3, 2, 1, 0,
      5, 3, 1, 0, 1,
      7, 25, 2, 12, 98, 105, 110, 97, 114, 121, 83, 101, 97, 114, 99, 104, 0, 0,
      6, 109, 101, 109, 111, 114, 121, 2, 0,
      10, 74, 1, 72, 1, 2, 127, 32, 2, 32, 3, 106, 65, 2, 110, 34, 4,
      32, 4, 32, 0, 106, 65, 4, 108, 40, 0, 0, 34, 5, 32, 1, 70, 13, 0, 26,
      65, 127, 32, 4, 32, 2, 70, 13, 0, 26, 32, 1, 32, 5, 74, 4, 127, 32, 0,
      32, 1, 32, 4, 32, 3, 16, 0, 5, 32, 0, 32, 1, 32, 2, 32, 4, 16, 0, 11,
      11]"
    by simp
  show "[0, 97, 115, 109, 1, 0, 0, 0,
      1, 9, 1, 96, 4, 127, 127, 127, 127, 1, 127,
      3, 2, 1, 0,
      5, 3, 1, 0, 1,
      7, 25, 2, 12, 98, 105, 110, 97, 114, 121, 83, 101, 97, 114, 99, 104, 0, 0,
      6, 109, 101, 109, 111, 114, 121, 2, 0,
      10, 74, 1, 72, 1, 2, 127, 32, 2, 32, 3, 106, 65, 2, 110, 34, 4,
      32, 4, 32, 0, 106, 65, 4, 108, 40, 0, 0, 34, 5, 32, 1, 70, 13, 0, 26,
      65, 127, 32, 4, 32, 2, 70, 13, 0, 26, 32, 1, 32, 5, 74, 4, 127, 32, 0,
      32, 1, 32, 4, 32, 3, 16, 0, 5, 32, 0, 32, 1, 32, 2, 32, 4, 16, 0, 11,
      11]
   = ([0, 97, 115, 109, 1, 0, 0, 0,
      1, 9, 1, 96, 4, 127, 127, 127, 127, 1, 127,
      3, 2, 1, 0,
      5, 3, 1, 0, 1,
      7, 25, 2, 12, 98, 105, 110, 97, 114, 121, 83, 101, 97, 114, 99, 104, 0, 0,
      6, 109, 101, 109, 111, 114, 121, 2, 0,
      10, 74, 1, 72, 1, 2, 127, 32, 2, 32, 3, 106, 65, 2, 110, 34, 4,
      32, 4, 32, 0, 106, 65, 4, 108, 40, 0, 0, 34, 5, 32, 1, 70, 13, 0, 26,
      65, 127, 32, 4, 32, 2, 70, 13, 0, 26, 32, 1, 32, 5, 74, 4, 127, 32, 0,
      32, 1, 32, 4, 32, 3, 16, 0, 5, 32, 0, 32, 1, 32, 2, 32, 4, 16, 0, 11,
      11] :: int list)"
    by (rule refl)
  show "encodeVector
           [\<lparr>paramTypes = [Num i32, Num i32, Num i32, Num i32], returnTypes = [Num i32]\<rparr>]
           encodeFuncType = Inr [1, 96, 4, 127, 127, 127, 127, 1, 127]"
    by (simp add: encode_eval)
  show "encodeVector [Number 0] encodeLEB128U = Inr [1, 0]"
    by (simp add: encode_eval)
  show "encodeVector [\<lparr>limits_min = Number 1, limits_max = None\<rparr>] encodeLimits = Inr [1, 0, 1]"
    by (simp add: encode_eval)
  show "encodeVector
           [\<lparr>export_name = ''binarySearch'', export_type = Function, export_index = Number 0\<rparr>,
            \<lparr>export_name = ''memory'', export_type = Memory, export_index = Number 0\<rparr>]
           encodeExport
      = Inr (tl (tl [7, 25, 2, 12, 98, 105, 110, 97, 114, 121, 83, 101, 97, 114, 99, 104, 0, 0,
          6, 109, 101, 109, 111, 114, 121, 2, 0]))"
    by (simp add: encode_eval)
  show "encodeVector module_code encodeFuncBody
      = Inr (tl (tl [10, 74, 1, 72, 1, 2, 127, 32, 2, 32, 3, 106, 65, 2, 110, 34, 4,
      32, 4, 32, 0, 106, 65, 4, 108, 40, 0, 0, 34, 5, 32, 1, 70, 13, 0, 26,
      65, 127, 32, 4, 32, 2, 70, 13, 0, 26, 32, 1, 32, 5, 74, 4, 127, 32, 0,
      32, 1, 32, 4, 32, 3, 16, 0, 5, 32, 0, 32, 1, 32, 2, 32, 4, 16, 0, 11,
      11]))"
    by (simp add: module_code_def encode_eval)
  show "length module_code = 1"
    by (simp add: module_code_def)
qed (simp_all add: encodeModule_bytes Uint8Array_def)

end
